theory Spec2Isabelle
  imports Main "HOL-Library.Log_Nat"
begin

section \<open>Geometry (location.py)\<close>

text \<open>
  A \<open>Location\<close> holds two Python integers. No code of the simulation assigns to
  \<open>row\<close> or \<open>column\<close> after construction, so locations are modelled as values.
\<close>

record location =
  row :: int
  column :: int

definition manhattan_distance :: "location \<Rightarrow> location \<Rightarrow> int" where
  "manhattan_distance origin destination =
     \<bar>row destination - row origin\<bar> + \<bar>column destination - column origin\<bar>"

section \<open>The Python operations the simulation uses\<close>

text \<open>Every exception the modelled code can raise is a value of this type.\<close>

datatype error = ZeroDivisionError | OverflowError | ValueError | KeyError

text \<open>
  A finite Python float (an IEEE 754 double) \<open>PyFloat m p\<close> stands for the number
  \<open>m * 2 ^ p\<close>.
\<close>

datatype pyfloat = PyFloat int int

text \<open>
  \<open>round_half_even n d\<close> is the integer nearest to \<open>n / d\<close> for \<open>0 < d\<close>, the even one
  of the two when \<open>n / d\<close> lies exactly between two integers.
\<close>

definition round_half_even :: "int \<Rightarrow> int \<Rightarrow> int" where
  "round_half_even n d =
     (let q = n div d; r = n mod d
      in if 2 * r < d then q
         else if d < 2 * r then q + 1
         else if even q then q else q + 1)"

text \<open>
  For \<open>0 < n\<close> and \<open>0 < d\<close>, \<open>quotient_exponent n d\<close> is the \<open>e\<close> with
  \<open>2 ^ e \<le> n / d < 2 ^ (e + 1)\<close>, found from the bit lengths of \<open>n\<close> and \<open>d\<close>.
\<close>

definition quotient_exponent :: "int \<Rightarrow> int \<Rightarrow> int" where
  "quotient_exponent n d =
     (let k = bitlen n - bitlen d
      in if (if 0 \<le> k then d * 2 ^ nat k \<le> n else d \<le> n * 2 ^ nat (- k))
         then k else k - 1)"

text \<open>
  \<open>a / b\<close> on Python integers: the double nearest to the exact quotient (ties to the
  even mantissa, 53 bits of precision, least exponent \<open>-1074\<close>), \<open>ZeroDivisionError\<close> for
  \<open>b = 0\<close> and \<open>OverflowError\<close> when the rounded quotient reaches \<open>2 ^ 1024\<close>.
\<close>

definition py_truediv :: "int \<Rightarrow> int \<Rightarrow> error + pyfloat" where
  "py_truediv a b =
     (if b = 0 then Inl ZeroDivisionError
      else if a = 0 then Inr (PyFloat 0 0)
      else
        let n = \<bar>a\<bar>; d = \<bar>b\<bar>;
            p = max (quotient_exponent n d - 52) (- 1074);
            m = (if 0 \<le> p then round_half_even n (d * 2 ^ nat p)
                 else round_half_even (n * 2 ^ nat (- p)) d)
        in if 0 \<le> p \<and> 2 ^ 1024 \<le> m * 2 ^ nat p then Inl OverflowError
           else Inr (PyFloat (sgn a * sgn b * m) p))"

text \<open>\<open>round(x)\<close> on a float: the nearest integer, ties to the even one.\<close>

fun py_round :: "pyfloat \<Rightarrow> int" where
  "py_round (PyFloat m p) =
     (if 0 \<le> p then m * 2 ^ nat p else round_half_even m (2 ^ nat (- p)))"

text \<open>\<open>a // b\<close> on Python integers: the floor of the quotient.\<close>

definition py_floordiv :: "int \<Rightarrow> int \<Rightarrow> error + int" where
  "py_floordiv a b = (if b = 0 then Inl ZeroDivisionError else Inr (a div b))"

text \<open>\<open>min(xs)\<close> raises \<open>ValueError\<close> on an empty sequence.\<close>

fun py_min :: "int list \<Rightarrow> error + int" where
  "py_min [] = Inl ValueError"
| "py_min (x # xs) = Inr (fold min xs x)"

text \<open>
  \<open>xs.remove(v)\<close> deletes the first element that compares equal to \<open>v\<close> (\<open>eq x\<close> says
  whether \<open>x\<close> does) and raises \<open>ValueError\<close> when there is none.
\<close>

fun py_remove :: "('a \<Rightarrow> bool) \<Rightarrow> 'a list \<Rightarrow> error + 'a list" where
  "py_remove eq [] = Inl ValueError"
| "py_remove eq (x # xs) =
     (if eq x then Inr xs
      else case py_remove eq xs of Inl e \<Rightarrow> Inl e | Inr ys \<Rightarrow> Inr (x # ys))"

text \<open>\<open>d[k] = v\<close> on a dict kept in insertion order: an existing key keeps its place.\<close>

fun py_setitem :: "('k \<times> 'v) list \<Rightarrow> 'k \<Rightarrow> 'v \<Rightarrow> ('k \<times> 'v) list" where
  "py_setitem [] k v = [(k, v)]"
| "py_setitem ((k', v') # kvs) k v =
     (if k' = k then (k', v) # kvs else (k', v') # py_setitem kvs k v)"

text \<open>\<open>d[k]\<close> raises \<open>KeyError\<close> for a missing key.\<close>

fun py_getitem :: "('k \<times> 'v) list \<Rightarrow> 'k \<Rightarrow> error + 'v" where
  "py_getitem [] k = Inl KeyError"
| "py_getitem ((k', v') # kvs) k = (if k' = k then Inr v' else py_getitem kvs k)"

section \<open>Riders (rider.py)\<close>

datatype status = WAITING | CANCELLED | SATISFIED

record rider =
  id_r :: string
  origin :: location
  destination :: location
  patience :: int
  status :: status

definition Rider :: "string \<Rightarrow> location \<Rightarrow> location \<Rightarrow> int \<Rightarrow> rider" where
  "Rider i orig dest pat =
     \<lparr>id_r = i, origin = orig, destination = dest, patience = pat, status = WAITING\<rparr>"

definition pickedup :: "rider \<Rightarrow> rider" where
  "pickedup r = r\<lparr>status := SATISFIED\<rparr>"

section \<open>Drivers (driver.py)\<close>

text \<open>
  \<open>idle\<close> is the attribute that \<open>start_drive\<close> assigns; a driver has none (\<open>None\<close>
  here) until then. It is not \<open>is_idle\<close>.
\<close>

record driver =
  identifier_d :: string
  location :: location
  speed :: int
  is_idle :: bool
  destination :: "location option"
  idle :: "bool option"

definition Driver :: "string \<Rightarrow> location \<Rightarrow> int \<Rightarrow> driver" where
  "Driver i loc spd =
     \<lparr>identifier_d = i, location = loc, speed = spd, is_idle = True,
      destination = None, idle = None\<rparr>"

text \<open>\<open>Driver.__eq__\<close> compares the identifiers only.\<close>

definition driver_eq :: "driver \<Rightarrow> driver \<Rightarrow> bool" where
  "driver_eq d other = (if identifier_d d = identifier_d other then True else False)"

definition get_travel_time :: "driver \<Rightarrow> location \<Rightarrow> error + int" where
  "get_travel_time d dest =
     (case py_truediv
             (\<bar>row dest - row (location d)\<bar> + \<bar>column dest - column (location d)\<bar>)
             (speed d) of
        Inl e \<Rightarrow> Inl e
      | Inr x \<Rightarrow> Inr (py_round x))"

definition start_drive :: "driver \<Rightarrow> location \<Rightarrow> error + (driver \<times> int)" where
  "start_drive d loc =
     (let d1 = d\<lparr>idle := Some False\<rparr>
      in case get_travel_time d1 loc of
           Inl e \<Rightarrow> Inl e
         | Inr t \<Rightarrow> Inr (d1, t))"

definition end_drive :: "driver \<Rightarrow> driver" where
  "end_drive d = d\<lparr>is_idle := True\<rparr>"

definition end_ride :: "driver \<Rightarrow> driver" where
  "end_ride d = d\<lparr>is_idle := True\<rparr>"

section \<open>The shared objects\<close>

text \<open>
  Riders and drivers are mutable objects that the dispatcher's lists and the pending
  events share, so they live in a store and are named by references. All of them are
  created while the input is read; nothing is allocated during a run. Riders have no
  \<open>__eq__\<close>: two riders compare equal exactly when they are the same object, that is
  when their references are equal.
\<close>

type_synonym rider_ref = nat
type_synonym driver_ref = nat

record dispatcher =
  waitlist :: "rider_ref list"
  drivers :: "driver_ref list"

definition Dispatcher :: dispatcher where
  "Dispatcher = \<lparr>waitlist = [], drivers = []\<rparr>"

datatype category = RIDER | DRIVER

datatype activity = REQUEST | CANCEL | PICKUP | DROPOFF

type_synonym notification = "int \<times> category \<times> activity \<times> string \<times> location"

record world =
  rider_at :: "rider_ref \<Rightarrow> rider"
  driver_at :: "driver_ref \<Rightarrow> driver"
  disp :: dispatcher
  monitor :: "notification list"

text \<open>
  Modelled from the spec: the observer (monitor.py is not among the sources). Its
  \<open>notify(timestamp, subject kind, action, identifier, position)\<close> is fire-and-forget
  and returns nothing to the caller; the model records the notifications in order.
\<close>

definition notify :: "world \<Rightarrow> notification \<Rightarrow> world" where
  "notify w n = w\<lparr>monitor := monitor w @ [n]\<rparr>"

definition set_rider :: "world \<Rightarrow> rider_ref \<Rightarrow> rider \<Rightarrow> world" where
  "set_rider w r x = w\<lparr>rider_at := (rider_at w)(r := x)\<rparr>"

definition set_driver :: "world \<Rightarrow> driver_ref \<Rightarrow> driver \<Rightarrow> world" where
  "set_driver w d x = w\<lparr>driver_at := (driver_at w)(d := x)\<rparr>"

section \<open>The dispatcher (dispatcher.py)\<close>

text \<open>
  The dict \<open>list_of_speeds\<close> of \<open>request_driver\<close>, filled by the loop over the roster:
  the key is the distance, the value the driver.
\<close>

definition list_of_speeds :: "world \<Rightarrow> rider_ref \<Rightarrow> (int \<times> driver_ref) list" where
  "list_of_speeds w r =
     fold (\<lambda>d tbl.
             py_setitem tbl
               (manhattan_distance (location (driver_at w d)) (origin (rider_at w r))) d)
       (drivers (disp w)) []"

definition request_driver :: "world \<Rightarrow> rider_ref \<Rightarrow> error + (world \<times> driver_ref option)" where
  "request_driver w r =
     (if drivers (disp w) = [] then
        Inr (w\<lparr>disp := (disp w)\<lparr>waitlist := waitlist (disp w) @ [r]\<rparr>\<rparr>, None)
      else
        case py_min (map fst (list_of_speeds w r)) of
          Inl e \<Rightarrow> Inl e
        | Inr k \<Rightarrow>
            (case py_getitem (list_of_speeds w r) k of
               Inl e \<Rightarrow> Inl e
             | Inr d \<Rightarrow>
                 (case py_remove (\<lambda>x. driver_eq (driver_at w x) (driver_at w d))
                         (drivers (disp w)) of
                    Inl e \<Rightarrow> Inl e
                  | Inr ds \<Rightarrow> Inr (w\<lparr>disp := (disp w)\<lparr>drivers := ds\<rparr>\<rparr>, Some d))))"

text \<open>
  \<open>driver not in self.drivers\<close> compares with \<open>Driver.__eq__\<close>. The waitlist is not
  empty where \<open>pop(0)\<close> runs, so it cannot raise.
\<close>

definition request_rider :: "world \<Rightarrow> driver_ref \<Rightarrow> world \<times> rider_ref option" where
  "request_rider w d =
     (case waitlist (disp w) of
        [] \<Rightarrow>
          if \<not> list_ex (\<lambda>x. driver_eq (driver_at w x) (driver_at w d)) (drivers (disp w))
          then (w\<lparr>disp := (disp w)\<lparr>drivers := drivers (disp w) @ [d]\<rparr>\<rparr>, None)
          else (w, None)
      | r # rs \<Rightarrow> (w\<lparr>disp := (disp w)\<lparr>waitlist := rs\<rparr>\<rparr>, Some r))"

text \<open>
  The loop of \<open>cancel_ride\<close> walks the waitlist by position while its body removes from
  the same list: \<open>i\<close> is the iterator's position, \<open>wl\<close> the list as it is now. The
  removal follows a successful comparison, so the rider is there and \<open>remove\<close> cannot
  raise.
\<close>

function cancel_ride_loop :: "nat \<Rightarrow> rider_ref list \<Rightarrow> rider_ref \<Rightarrow> rider_ref list" where
  "cancel_ride_loop i wl r =
     (if i < length wl then
        (if wl ! i = r then cancel_ride_loop (Suc i) (remove1 r wl) r
         else cancel_ride_loop (Suc i) wl r)
      else wl)"
  by pat_completeness auto
termination
  by (relation "measure (\<lambda>(i, wl, r). length wl - i)") (auto simp: length_remove1)

declare cancel_ride_loop.simps [simp del]

definition cancel_ride :: "world \<Rightarrow> rider_ref \<Rightarrow> world" where
  "cancel_ride w r = w\<lparr>disp := (disp w)\<lparr>waitlist := cancel_ride_loop 0 (waitlist (disp w)) r\<rparr>\<rparr>"

section \<open>Events (event.py)\<close>

datatype event =
    RiderRequest int rider_ref
  | DriverRequest int driver_ref
  | Cancellation int rider_ref
  | Pickup int rider_ref driver_ref
  | Dropoff int rider_ref driver_ref

text \<open>
  The constructors of \<open>Pickup\<close> and \<open>Dropoff\<close> move the driver: they assign the rider's
  origin (destination) to the driver's location. The other constructors change nothing.
\<close>

definition Pickup_init :: "world \<Rightarrow> int \<Rightarrow> rider_ref \<Rightarrow> driver_ref \<Rightarrow> world \<times> event" where
  "Pickup_init w t r d =
     (set_driver w d ((driver_at w d)\<lparr>location := origin (rider_at w r)\<rparr>), Pickup t r d)"

definition Dropoff_init :: "world \<Rightarrow> int \<Rightarrow> rider_ref \<Rightarrow> driver_ref \<Rightarrow> world \<times> event" where
  "Dropoff_init w t r d =
     (set_driver w d ((driver_at w d)\<lparr>location := rider.destination (rider_at w r)\<rparr>),
      Dropoff t r d)"

text \<open>\<open>driver.start_drive(location)\<close> on the driver object behind a reference.\<close>

definition start_drive_at :: "world \<Rightarrow> driver_ref \<Rightarrow> location \<Rightarrow> error + (world \<times> int)" where
  "start_drive_at w d loc =
     (case start_drive (driver_at w d) loc of
        Inl e \<Rightarrow> Inl e
      | Inr (d', t) \<Rightarrow> Inr (set_driver w d d', t))"

text \<open>
  Every \<open>do\<close> returns the world it leaves and what the method returns: \<open>Some\<close> of the
  list of new events, or \<open>None\<close> when the method returns Python's \<open>None\<close>.
\<close>

definition RiderRequest_do ::
  "int \<Rightarrow> rider_ref \<Rightarrow> world \<Rightarrow> error + (world \<times> event list option)" where
  "RiderRequest_do t r w =
     (let w1 = notify w (t, RIDER, REQUEST, id_r (rider_at w r), origin (rider_at w r))
      in case request_driver w1 r of
           Inl e \<Rightarrow> Inl e
         | Inr (w2, None) \<Rightarrow>
             Inr (w2, Some [Cancellation (t + patience (rider_at w2 r)) r])
         | Inr (w2, Some d) \<Rightarrow>
             (case start_drive_at w2 d (origin (rider_at w2 r)) of
                Inl e \<Rightarrow> Inl e
              | Inr (w3, travel_time) \<Rightarrow>
                  (case Pickup_init w3 (t + travel_time) r d of
                     (w4, pickup) \<Rightarrow>
                       Inr (w4, Some [pickup,
                                      Cancellation (t + patience (rider_at w4 r)) r]))))"

definition DriverRequest_do ::
  "int \<Rightarrow> driver_ref \<Rightarrow> world \<Rightarrow> error + (world \<times> event list option)" where
  "DriverRequest_do t d w =
     (let w1 = notify w (t, DRIVER, REQUEST, identifier_d (driver_at w d),
                         location (driver_at w d))
      in case request_rider w1 d of
           (w2, None) \<Rightarrow> Inr (w2, Some [])
         | (w2, Some r) \<Rightarrow>
             (case start_drive_at w2 d (origin (rider_at w2 r)) of
                Inl e \<Rightarrow> Inl e
              | Inr (w3, travel_time) \<Rightarrow>
                  (case Pickup_init w3 (t + \<bar>travel_time\<bar>) r d of
                     (w4, pickup) \<Rightarrow> Inr (w4, Some [pickup]))))"

definition Cancellation_do ::
  "int \<Rightarrow> rider_ref \<Rightarrow> world \<Rightarrow> error + (world \<times> event list option)" where
  "Cancellation_do t r w =
     (if status (rider_at w r) \<noteq> SATISFIED then
        let w1 = set_rider w r ((rider_at w r)\<lparr>status := CANCELLED\<rparr>);
            w2 = notify w1 (t, RIDER, CANCEL, id_r (rider_at w1 r), origin (rider_at w1 r));
            w3 = cancel_ride w2 r
        in Inr (w3, None)
      else Inr (w, None))"

definition Pickup_do ::
  "int \<Rightarrow> rider_ref \<Rightarrow> driver_ref \<Rightarrow> world \<Rightarrow> error + (world \<times> event list option)" where
  "Pickup_do t r d w =
     (let w1 = notify w (t, RIDER, PICKUP, id_r (rider_at w r), origin (rider_at w r));
          w2 = notify w1 (t, DRIVER, PICKUP, identifier_d (driver_at w1 d),
                          location (driver_at w1 d))
      in if status (rider_at w2 r) = CANCELLED then
           Inr (set_driver w2 d ((driver_at w2 d)\<lparr>driver.destination := None\<rparr>),
                Some [DriverRequest t d])
         else if status (rider_at w2 r) = WAITING then
           let w3 = set_driver w2 d
                      ((driver_at w2 d)
                         \<lparr>driver.destination := Some (rider.destination (rider_at w2 r))\<rparr>)
           in case start_drive_at w3 d (origin (rider_at w3 r)) of
                Inl e \<Rightarrow> Inl e
              | Inr (w4, travel_time) \<Rightarrow>
                  (case py_floordiv
                          (manhattan_distance (origin (rider_at w4 r))
                             (rider.destination (rider_at w4 r)))
                          (speed (driver_at w4 d)) of
                     Inl e \<Rightarrow> Inl e
                   | Inr drop_off_time \<Rightarrow>
                       (case Dropoff_init w4 (t + \<bar>travel_time\<bar> + drop_off_time) r d of
                          (w5, dropoff) \<Rightarrow>
                            Inr (set_rider w5 r ((rider_at w5 r)\<lparr>status := SATISFIED\<rparr>),
                                 Some [dropoff])))
         else Inr (w2, Some []))"

definition Dropoff_do ::
  "int \<Rightarrow> rider_ref \<Rightarrow> driver_ref \<Rightarrow> world \<Rightarrow> error + (world \<times> event list option)" where
  "Dropoff_do t r d w =
     (let w1 = notify w (t, DRIVER, DROPOFF, identifier_d (driver_at w d),
                         location (driver_at w d));
          w2 = set_rider w1 r ((rider_at w1 r)\<lparr>status := SATISFIED\<rparr>);
          w3 = set_driver w2 d ((driver_at w2 d)\<lparr>driver.destination := None\<rparr>)
      in Inr (w3, Some [DriverRequest t d]))"

fun do_event :: "event \<Rightarrow> world \<Rightarrow> error + (world \<times> event list option)" where
  "do_event (RiderRequest t r) w = RiderRequest_do t r w"
| "do_event (DriverRequest t d) w = DriverRequest_do t d w"
| "do_event (Cancellation t r) w = Cancellation_do t r w"
| "do_event (Pickup t r d) w = Pickup_do t r d w"
| "do_event (Dropoff t r d) w = Dropoff_do t r d w"

section \<open>Runs\<close>

definition successors :: "event list option \<Rightarrow> event list" where
  "successors res = (case res of None \<Rightarrow> [] | Some es \<Rightarrow> es)"

text \<open>
  One step of a schedule: execute the pending event at a position, or discard it.
\<close>

datatype choice = Execute nat | Discard nat

text \<open>
  Modelled from the spec: the scheduler (the simulation loop is not among the sources).
  Section 4.1 has it pop a pending event, discard it when it lies past the horizon and
  execute it otherwise, and push every successor the event returns. The order of the
  pops and the horizon are left open here: a schedule says, step by step, which pending
  event is executed or discarded. A run of the scheduler of section 4.1 is the schedule
  that always names the earliest pending event. An exception raised by an event ends the
  run.
\<close>

fun run :: "choice list \<Rightarrow> world \<times> event list \<Rightarrow> error + (world \<times> event list)" where
  "run [] c = Inr c"
| "run (Discard i # cs) (w, q) = run cs (w, take i q @ drop (Suc i) q)"
| "run (Execute i # cs) (w, q) =
     (if i < length q then
        (case do_event (q ! i) w of
           Inl e \<Rightarrow> Inl e
         | Inr (w', res) \<Rightarrow> run cs (w', take i q @ drop (Suc i) q @ successors res))
      else run cs (w, q))"

text \<open>The events of the input: section 6 and \<open>create_event_list\<close> have no other kind.\<close>

fun is_request :: "event \<Rightarrow> bool" where
  "is_request (RiderRequest t r) = True"
| "is_request (DriverRequest t d) = True"
| "is_request e = False"

text \<open>
  A pending \<open>Dropoff\<close> is settled when its rider is already satisfied; every other event
  is settled.
\<close>

fun dropoff_settled :: "world \<Rightarrow> event \<Rightarrow> bool" where
  "dropoff_settled w (Dropoff t r d) = (status (rider_at w r) = SATISFIED)"
| "dropoff_settled w e = True"

text \<open>
  The data model's invariants of a run: nobody is on the waitlist twice, no two drivers
  of the roster have the same identifier, no rider has two pending requests, and no
  rider with a pending request is on the waitlist.
\<close>

fun requesting :: "event \<Rightarrow> rider_ref list" where
  "requesting (RiderRequest t r) = [r]"
| "requesting e = []"

definition roster_ids :: "world \<Rightarrow> string list" where
  "roster_ids w = map (\<lambda>x. identifier_d (driver_at w x)) (drivers (disp w))"

definition wellformed :: "world \<Rightarrow> event list \<Rightarrow> bool" where
  "wellformed w q =
     (distinct (waitlist (disp w)) \<and> distinct (roster_ids w)
      \<and> distinct (concat (map requesting q))
      \<and> set (concat (map requesting q)) \<inter> set (waitlist (disp w)) = {})"

section \<open>Concrete scenarios\<close>

text \<open>The driver of the doctests of driver.py, and a location it drives to.\<close>

definition king1 :: driver where
  "king1 = Driver ''king1'' \<lparr>row = 1, column = 1\<rparr> 1"

definition loc98 :: location where
  "loc98 = \<lparr>row = 9, column = 8\<rparr>"


text \<open>
  The scenario of section 8: driver 0 at \<open>(0, 0)\<close> with speed 1, rider 0 from \<open>(0, 3)\<close>
  to \<open>(0, 5)\<close> with patience 100; nobody is registered or waiting yet.
\<close>

definition driver_D :: driver where
  "driver_D = Driver ''D'' \<lparr>row = 0, column = 0\<rparr> 1"

definition rider_R :: rider where
  "rider_R = Rider ''R'' \<lparr>row = 0, column = 3\<rparr> \<lparr>row = 0, column = 5\<rparr> 100"

definition world0 :: world where
  "world0 = \<lparr>rider_at = (\<lambda>_. rider_R), driver_at = (\<lambda>_. driver_D),
             disp = Dispatcher, monitor = []\<rparr>"

text \<open>
  Four more drivers, all of speed 1: \<open>E\<close> and \<open>F\<close> are both at distance 2 from the
  origin \<open>(0, 3)\<close> of the riders, \<open>G\<close> at distance 5 and \<open>H\<close> at distance 9. Every other
  reference holds a driver like \<open>D\<close>, at distance 3.
\<close>

definition fleet :: "driver_ref \<Rightarrow> driver" where
  "fleet = (\<lambda>_. driver_D)
     (1 := Driver ''E'' \<lparr>row = 0, column = 1\<rparr> 1,
      2 := Driver ''F'' \<lparr>row = 0, column = 5\<rparr> 1,
      3 := Driver ''G'' \<lparr>row = 0, column = 8\<rparr> 1,
      4 := Driver ''H'' \<lparr>row = 0, column = 12\<rparr> 1)"

text \<open>The world with these drivers, a given waitlist and a given roster.\<close>

definition scenario :: "rider_ref list \<Rightarrow> driver_ref list \<Rightarrow> world" where
  "scenario wl ds =
     \<lparr>rider_at = (\<lambda>_. rider_R), driver_at = fleet,
      disp = \<lparr>waitlist = wl, drivers = ds\<rparr>, monitor = []\<rparr>"

text \<open>The world of section 8 after rider 0 has been picked up.\<close>

definition world_satisfied :: world where
  "world_satisfied =
     world0\<lparr>rider_at := (rider_at world0)(0 := rider_R\<lparr>status := SATISFIED\<rparr>)\<rparr>"

section \<open>Rounding and the travel time\<close>

lemma rhe_unique:
  assumes b: "0 < b" and k: "\<bar>2 * (a - k * b)\<bar> < b"
  shows "round_half_even a b = k"
proof (cases "0 \<le> a - k * b")
  case True
  define r where "r = a - k * b"
  from True k b have r: "0 \<le> r" "r < b" "2 * r < b" by (auto simp: r_def)
  have a: "a = b * k + r" by (simp add: r_def)
  from int_div_pos_eq [OF a r(1,2)] int_mod_pos_eq [OF a r(1,2)] r(3)
  show ?thesis by (simp add: round_half_even_def Let_def)
next
  case False
  define r where "r = a - k * b + b"
  from False k b have r: "0 \<le> r" "r < b" "b < 2 * r" by (auto simp: r_def)
  have a: "a = b * (k - 1) + r" by (simp add: r_def algebra_simps)
  from int_div_pos_eq [OF a r(1,2)] int_mod_pos_eq [OF a r(1,2)] r(3)
  show ?thesis by (simp add: round_half_even_def Let_def)
qed

lemma rhe_tie:
  assumes b: "0 < b" and k: "2 * (a - k * b) = b"
  shows "round_half_even a b = (if even k then k else k + 1)"
proof -
  define r where "r = a - k * b"
  from k b have r: "0 \<le> r" "r < b" "2 * r = b" by (auto simp: r_def)
  have a: "a = b * k + r" by (simp add: r_def)
  from int_div_pos_eq [OF a r(1,2)] int_mod_pos_eq [OF a r(1,2)] r(3)
  show ?thesis by (simp add: round_half_even_def Let_def)
qed

lemma rhe_bound:
  assumes b: "0 < b"
  shows "\<bar>2 * (a - round_half_even a b * b)\<bar> \<le> b"
proof -
  define q where "q = a div b"
  define r where "r = a mod b"
  have a: "a = q * b + r" by (simp add: q_def r_def)
  from b have r: "0 \<le> r" "r < b" by (simp_all add: r_def)
  have "round_half_even a b = q \<and> 2 * r \<le> b \<or> round_half_even a b = q + 1 \<and> b \<le> 2 * r"
    by (auto simp: round_half_even_def Let_def q_def r_def)
  then show ?thesis
  proof
    assume "round_half_even a b = q \<and> 2 * r \<le> b"
    with r show ?thesis by (simp add: a)
  next
    assume "round_half_even a b = q + 1 \<and> b \<le> 2 * r"
    with r show ?thesis by (simp add: a algebra_simps)
  qed
qed

lemma rhe_twice:
  assumes d: "0 < d" and dP: "d < P" and P: "P = 2 * P'"
  shows "round_half_even (round_half_even (n * P) d) P = round_half_even n d"
proof (cases "\<exists>j. 2 * (n - j * d) = d")
  case True
  then obtain j where j: "2 * (n - j * d) = d" ..
  from d dP have P0: "0 < P" by simp
  have "n * P - (2 * j + 1) * P' * d = (2 * (n - j * d) - d) * P'"
    by (simp add: P algebra_simps)
  also have "\<dots> = 0" using j by simp
  finally have "\<bar>2 * (n * P - (2 * j + 1) * P' * d)\<bar> < d" using d by simp
  from rhe_unique [OF d this] have m: "round_half_even (n * P) d = (2 * j + 1) * P'" .
  have "2 * ((2 * j + 1) * P' - j * P) = P" by (simp add: P algebra_simps)
  from rhe_tie [OF P0 this] rhe_tie [OF d j] m show ?thesis by simp
next
  case False
  define k where "k = round_half_even n d"
  define m where "m = round_half_even (n * P) d"
  from d dP have P0: "0 < P" by simp
  have kb: "\<bar>2 * (n - k * d)\<bar> \<le> d" unfolding k_def by (rule rhe_bound [OF d])
  have "\<bar>2 * (n - k * d)\<bar> \<noteq> d"
  proof
    assume eq: "\<bar>2 * (n - k * d)\<bar> = d"
    show False
    proof (cases "0 \<le> 2 * (n - k * d)")
      case True
      with eq have "2 * (n - k * d) = d" by simp
      with False show False by blast
    next
      case neg: False
      with eq have "2 * (n - (k - 1) * d) = d" by (simp add: algebra_simps)
      with False show False by blast
    qed
  qed
  with kb have k1: "\<bar>2 * (n - k * d)\<bar> \<le> d - 1" by simp
  have mb: "\<bar>2 * (n * P - m * d)\<bar> \<le> d" unfolding m_def by (rule rhe_bound [OF d])
  have eq: "2 * (m - k * P) * d = 2 * (n - k * d) * P - 2 * (n * P - m * d)"
    by (simp add: algebra_simps)
  have "\<bar>2 * (m - k * P)\<bar> * d = \<bar>2 * (m - k * P) * d\<bar>"
    using d by (simp only: abs_mult abs_of_pos)
  also have "\<dots> = \<bar>2 * (n - k * d) * P - 2 * (n * P - m * d)\<bar>"
    by (simp only: eq)
  also have "\<dots> \<le> \<bar>2 * (n - k * d) * P\<bar> + \<bar>2 * (n * P - m * d)\<bar>"
    by (rule abs_triangle_ineq4)
  also have "\<bar>2 * (n - k * d) * P\<bar> = \<bar>2 * (n - k * d)\<bar> * P"
    using P0 by (simp only: abs_mult abs_of_pos)
  also have "\<bar>2 * (n - k * d)\<bar> * P \<le> (d - 1) * P"
    using k1 P0 by (intro mult_right_mono) simp_all
  finally have "\<bar>2 * (m - k * P)\<bar> * d \<le> (d - 1) * P + d" using mb by simp
  also have "\<dots> < P * d" using dP by (simp add: algebra_simps)
  finally have "\<bar>2 * (m - k * P)\<bar> * d < P * d" .
  with d have "\<bar>2 * (m - k * P)\<bar> < P" by simp
  from rhe_unique [OF P0 this] show ?thesis by (simp add: m_def k_def)
qed

lemma rhe_tiny:
  assumes n: "0 \<le> n" and Pd: "P \<le> d" and nP: "2 * n < P"
  shows "round_half_even (round_half_even (n * P) d) P = round_half_even n d"
proof -
  from n nP Pd have P0: "0 < P" and d: "0 < d" by simp_all
  define m where "m = round_half_even (n * P) d"
  have mb: "\<bar>2 * (n * P - m * d)\<bar> \<le> d" unfolding m_def by (rule rhe_bound [OF d])
  from n P0 d have m0: "0 \<le> m" unfolding m_def
    by (simp add: round_half_even_def Let_def pos_imp_zdiv_nonneg_iff)
  have "n * P \<le> n * d" using n Pd by (rule mult_left_mono [rotated]) 
  with mb have "2 * (m * d) \<le> 2 * (n * d) + d" by simp
  then have "(2 * m) * d \<le> (2 * n + 1) * d" by (simp add: algebra_simps)
  with d have "2 * m \<le> 2 * n + 1" by simp
  then have "m \<le> n" by simp
  with m0 nP have "\<bar>2 * (m - 0 * P)\<bar> < P" by simp
  from rhe_unique [OF P0 this] have "round_half_even m P = 0" .
  moreover from n nP Pd have "\<bar>2 * (n - 0 * d)\<bar> < d" by simp
  from rhe_unique [OF d this] have "round_half_even n d = 0" .
  ultimately show ?thesis by (simp add: m_def)
qed

lemma bitlen_nat:
  assumes "0 < x"
  obtains N where "bitlen x = int (Suc N)" "2 ^ N \<le> x" "x < 2 ^ Suc N"
proof -
  from assms have "bitlen x \<noteq> 0" by (simp add: bitlen_eq_zero_iff)
  with bitlen_nonneg [of x] have "1 \<le> bitlen x" by simp
  then have N: "bitlen x = int (Suc (nat (bitlen x - 1)))" by simp
  from bitlen_bounds [OF assms] have "2 ^ nat (bitlen x - 1) \<le> x" ..
  moreover from bitlen_bounds [OF assms] have "x < 2 ^ nat (bitlen x)" ..
  then have "x < 2 ^ nat (int (Suc (nat (bitlen x - 1))))" by (simp only: N [symmetric])
  then have "x < 2 ^ Suc (nat (bitlen x - 1))" by (simp only: nat_int)
  ultimately show ?thesis using N by (intro that)
qed

lemma quotient_exponent_lower:
  assumes n: "0 < n" and d: "0 < d"
  shows "if 0 \<le> quotient_exponent n d then d * 2 ^ nat (quotient_exponent n d) \<le> n
         else d \<le> n * 2 ^ nat (- quotient_exponent n d)"
proof -
  from n obtain N where N: "bitlen n = int (Suc N)" "2 ^ N \<le> n" "n < 2 ^ Suc N"
    by (rule bitlen_nat)
  from d obtain D where D: "bitlen d = int (Suc D)" "2 ^ D \<le> d" "d < 2 ^ Suc D"
    by (rule bitlen_nat)
  define k where "k = bitlen n - bitlen d"
  have k: "k = int N - int D" by (simp add: k_def N D)
  let ?c = "if 0 \<le> k then d * 2 ^ nat k \<le> n else d \<le> n * 2 ^ nat (- k)"
  have e: "quotient_exponent n d = (if ?c then k else k - 1)"
    by (simp add: quotient_exponent_def k_def Let_def)
  have below: "if 0 \<le> k - 1 then d * 2 ^ nat (k - 1) \<le> n else d \<le> n * 2 ^ nat (- (k - 1))"
  proof (cases "0 \<le> k - 1")
    case True
    with k have ND: "N = Suc D + nat (k - 1)" by linarith
    have "d * 2 ^ nat (k - 1) \<le> 2 ^ Suc D * 2 ^ nat (k - 1)"
      using D(3) by (intro mult_right_mono) simp_all
    also have "\<dots> = 2 ^ N" by (simp only: ND power_add)
    finally show ?thesis using True N(2) by simp
  next
    case False
    with k have DN: "Suc D = N + nat (- (k - 1))" by linarith
    have "d \<le> 2 ^ Suc D" using D(3) by simp
    also have "\<dots> = 2 ^ N * 2 ^ nat (- (k - 1))" by (simp only: DN power_add)
    also have "\<dots> \<le> n * 2 ^ nat (- (k - 1))"
      using N(2) by (intro mult_right_mono) simp_all
    finally show ?thesis using False by simp
  qed
  show ?thesis
  proof (cases ?c)
    case True
    then show ?thesis unfolding e by (simp split: if_splits)
  next
    case False
    then have "quotient_exponent n d = k - 1" unfolding e by simp
    then show ?thesis using below by (simp only:)
  qed
qed

lemma quotient_exponent_small:
  assumes n: "0 < n" "n < 2 ^ 52" and d: "0 < d"
  shows "quotient_exponent n d \<le> 51"
proof -
  from n(2) have "bitlen n \<le> 52" by (simp add: bitlen_le_iff_power)
  moreover from d have "bitlen d \<noteq> 0" by (simp add: bitlen_eq_zero_iff)
  with bitlen_nonneg [of d] have "1 \<le> bitlen d" by simp
  ultimately have "bitlen n - bitlen d \<le> 51" by simp
  then show ?thesis by (simp add: quotient_exponent_def Let_def)
qed

lemma py_truediv_small:
  assumes n0: "0 \<le> n" and n52: "n < 2 ^ 52" and d: "0 < d"
  shows "\<exists>x. py_truediv n d = Inr x \<and> py_round x = round_half_even n d"
proof (cases "n = 0")
  case True
  from d have "\<bar>2 * (0 - 0 * d)\<bar> < d" by simp
  from rhe_unique [OF d this] have "round_half_even 0 d = 0" .
  with True d show ?thesis by (simp add: py_truediv_def)
next
  case False
  with n0 have n: "0 < n" by simp
  define e where "e = quotient_exponent n d"
  define p where "p = max (e - 52) (- 1074)"
  define P :: int where "P = 2 ^ nat (- p)"
  define m where "m = round_half_even (n * P) d"
  from quotient_exponent_small [OF n n52 d] have e51: "e \<le> 51" by (simp add: e_def)
  then have p: "p < 0" "- 1074 \<le> p" by (simp_all add: p_def)
  have res: "py_truediv n d = Inr (PyFloat m p)"
    using n d p by (simp add: py_truediv_def Let_def e_def [symmetric] p_def [symmetric]
        m_def P_def)
  have rnd: "py_round (PyFloat m p) = round_half_even m P"
    using p by (simp add: P_def)
  from p have "nat (- p) = Suc (nat (- p) - 1)" by simp
  then have "P = 2 ^ Suc (nat (- p) - 1)" by (simp only: P_def)
  then have even: "P = 2 * 2 ^ (nat (- p) - 1)" by simp
  have alt: "d < P \<or> 2 * n < P"
  proof (cases "- 1074 \<le> e - 52")
    case True
    then have "p = e - 52" by (simp add: p_def)
    then have pe: "nat (- p) = nat (52 - e)" by simp
    have "d < P"
    proof (cases "0 \<le> e")
      case True
      with quotient_exponent_lower [OF n d] have "d * 2 ^ nat e \<le> n" by (simp add: e_def)
      with n52 have "d * 2 ^ nat e < 2 ^ 52" by simp
      also from True e51 have "(52::nat) = nat (52 - e) + nat e" by simp
      then have "(2::int) ^ 52 = 2 ^ nat (52 - e) * 2 ^ nat e" by (simp only: power_add)
      finally have "d * 2 ^ nat e < P * 2 ^ nat e" by (simp add: P_def pe)
      then show ?thesis by simp
    next
      case False
      with quotient_exponent_lower [OF n d] have "d \<le> n * 2 ^ nat (- e)" by (simp add: e_def)
      also have "n * 2 ^ nat (- e) < 2 ^ 52 * 2 ^ nat (- e)"
        using n52 by (intro mult_strict_right_mono) simp_all
      also from False have "nat (52 - e) = 52 + nat (- e)" by simp
      then have "(2::int) ^ 52 * 2 ^ nat (- e) = 2 ^ nat (52 - e)" by (simp only: power_add)
      finally show ?thesis by (simp add: P_def pe)
    qed
    then show ?thesis ..
  next
    case False
    then have "p = - 1074" by (simp add: p_def max_def)
    then have "P = 2 ^ 1074" by (simp add: P_def)
    moreover from n52 have "2 * n < 2 ^ 53" by simp
    moreover have "(2::int) ^ 53 < 2 ^ 1074" by simp
    ultimately have "2 * n < P" by linarith
    then show ?thesis ..
  qed
  have "round_half_even m P = round_half_even n d"
  proof (cases "d < P")
    case True
    from rhe_twice [OF d True even] show ?thesis by (simp add: m_def)
  next
    case False
    with alt have "P \<le> d" "2 * n < P" by simp_all
    from rhe_tiny [OF n0 this] show ?thesis by (simp add: m_def)
  qed
  with res rnd show ?thesis by simp
qed

lemma manhattan_distance_abs:
  "\<bar>row dest - row (location d)\<bar> + \<bar>column dest - column (location d)\<bar>
     = manhattan_distance (location d) dest"
  by (simp add: manhattan_distance_def)

lemma get_travel_time_exact:
  assumes "0 < speed d" "manhattan_distance (location d) dest < 2 ^ 52"
  shows "get_travel_time d dest =
           Inr (round_half_even (manhattan_distance (location d) dest) (speed d))"
proof -
  have "0 \<le> manhattan_distance (location d) dest" by (simp add: manhattan_distance_def)
  from py_truediv_small [OF this assms(2,1)] obtain x where
    "py_truediv (manhattan_distance (location d) dest) (speed d) = Inr x"
    "py_round x = round_half_even (manhattan_distance (location d) dest) (speed d)"
    by blast
  then show ?thesis
    by (simp add: get_travel_time_def manhattan_distance_abs)
qed

lemma rhe_nearest:
  assumes b: "0 < b"
  shows "\<bar>a - round_half_even a b * b\<bar> \<le> \<bar>a - k * b\<bar>"
proof (cases "k = round_half_even a b")
  case True
  then show ?thesis by simp
next
  case False
  define r where "r = round_half_even a b"
  from False have "1 \<le> \<bar>r - k\<bar>" by (simp add: r_def)
  with b have "1 * b \<le> \<bar>r - k\<bar> * b" by (intro mult_right_mono) simp_all
  also have "\<bar>r - k\<bar> * b = \<bar>(r - k) * b\<bar>" using b by (simp only: abs_mult abs_of_pos)
  also have "(r - k) * b = (a - k * b) - (a - r * b)" by (simp add: algebra_simps)
  also have "\<bar>(a - k * b) - (a - r * b)\<bar> \<le> \<bar>a - k * b\<bar> + \<bar>a - r * b\<bar>"
    by (rule abs_triangle_ineq4)
  finally have "b \<le> \<bar>a - k * b\<bar> + \<bar>a - r * b\<bar>" by simp
  moreover have "\<bar>2 * (a - r * b)\<bar> = 2 * \<bar>a - r * b\<bar>" by (subst abs_mult) simp
  with rhe_bound [OF b, of a] have "2 * \<bar>a - r * b\<bar> \<le> b" by (simp only: r_def)
  ultimately show ?thesis by (simp add: r_def)
qed

text \<open>
  Where the docstring of \<open>get_travel_time\<close> holds. For a driver of positive speed and a
  destination at Manhattan distance below \<open>2 ^ 52\<close> from the driver's location,
  \<open>get_travel_time\<close> returns the integer nearest to distance / speed, the even one when
  two integers are equally near: below \<open>2 ^ 52\<close> the double that \<open>/\<close> produces rounds to
  the same integer as the exact quotient.
\<close>

lemma get_travel_time_rounds:
  assumes "0 < speed d" "manhattan_distance (location d) dest < 2 ^ 52"
  shows "get_travel_time d dest =
           Inr (round_half_even (manhattan_distance (location d) dest) (speed d))
         \<and> (\<forall>k. \<bar>manhattan_distance (location d) dest
                   - round_half_even (manhattan_distance (location d) dest) (speed d)
                     * speed d\<bar>
                \<le> \<bar>manhattan_distance (location d) dest - k * speed d\<bar>)"
  using get_travel_time_exact [OF assms] rhe_nearest [OF assms(1)] by blast

lemma get_travel_time_rounds_example:
  "0 < speed (king1\<lparr>speed := 2\<rparr>)
   \<and> manhattan_distance (location (king1\<lparr>speed := 2\<rparr>)) loc98 = 15
   \<and> get_travel_time (king1\<lparr>speed := 2\<rparr>) loc98 = Inr 8
   \<and> (\<forall>k. \<bar>15 - 8 * 2\<bar> \<le> \<bar>15 - k * (2::int)\<bar>)"
proof -
  have a: "0 < speed (king1\<lparr>speed := 2\<rparr>)" by simp
  have b: "manhattan_distance (location (king1\<lparr>speed := 2\<rparr>)) loc98 = 15"
    by (simp add: king1_def Driver_def loc98_def manhattan_distance_def)
  then have c: "manhattan_distance (location (king1\<lparr>speed := 2\<rparr>)) loc98 < 2 ^ 52"
    by simp
  have r: "round_half_even 15 2 = 8" by (simp add: round_half_even_def)
  from get_travel_time_rounds [OF a c] a b r show ?thesis by simp
qed


section \<open>Drivers: the travel time at positive speed\<close>

lemmas world_ops = notify_def set_rider_def set_driver_def

lemmas scenario_defs = scenario_def fleet_def driver_D_def rider_R_def Driver_def Rider_def
  world0_def Dispatcher_def


lemma round_half_even_nonneg: "0 \<le> n \<Longrightarrow> 0 < d \<Longrightarrow> 0 \<le> round_half_even n d"
  by (simp add: round_half_even_def Let_def pos_imp_zdiv_nonneg_iff)

lemma py_truediv_nonneg:
  assumes "0 \<le> a" "0 < b" "py_truediv a b = Inr x"
  shows "0 \<le> py_round x"
proof (cases "a = 0")
  case True
  with assms show ?thesis by (auto simp: py_truediv_def)
next
  case False
  define p where "p = max (quotient_exponent \<bar>a\<bar> \<bar>b\<bar> - 52) (- 1074)"
  define m where "m = (if 0 \<le> p then round_half_even \<bar>a\<bar> (\<bar>b\<bar> * 2 ^ nat p)
                 else round_half_even (\<bar>a\<bar> * 2 ^ nat (- p)) \<bar>b\<bar>)"
  from assms False have x: "x = PyFloat m p"
    by (auto simp: py_truediv_def Let_def p_def m_def split: if_splits)
  from assms have "0 \<le> m"
    by (simp add: m_def round_half_even_nonneg)
  then show ?thesis
    by (simp add: x round_half_even_nonneg)
qed

lemma get_travel_time_nonneg:
  "0 < speed d \<Longrightarrow> get_travel_time d dest = Inr t \<Longrightarrow> 0 \<le> t"
  by (auto simp: get_travel_time_def split: sum.splits intro: py_truediv_nonneg [rotated 2])

lemma get_travel_time_fields [simp]:
  "get_travel_time (d\<lparr>idle := i\<rparr>) dest = get_travel_time d dest"
  "get_travel_time (d\<lparr>driver.destination := x\<rparr>) dest = get_travel_time d dest"
  by (simp_all add: get_travel_time_def)

lemma king1_travel_time: "get_travel_time king1 loc98 = Inr 15"
  by code_simp

section \<open>The dispatcher's waitlist\<close>

lemma cancel_ride_loop_absent: "r \<notin> set wl \<Longrightarrow> cancel_ride_loop i wl r = wl"
proof (induction i wl r rule: cancel_ride_loop.induct)
  case (1 i wl r)
  show ?case
  proof (cases "i < length wl")
    case True
    with "1.prems" have "wl ! i \<noteq> r" by (metis nth_mem)
    with True "1.IH"(2) "1.prems" show ?thesis
      by (simp add: cancel_ride_loop.simps [of i wl r])
  next
    case False
    then show ?thesis by (simp add: cancel_ride_loop.simps [of i wl r])
  qed
qed

lemma remove1_last_occurrence: "count_list wl r \<le> 1 \<Longrightarrow> r \<notin> set (remove1 r wl)"
  by (induction wl) (auto simp: count_list_0_iff)

lemma cancel_ride_loop_once:
  "count_list wl r \<le> 1 \<Longrightarrow> r \<notin> set (take i wl) \<Longrightarrow> cancel_ride_loop i wl r = remove1 r wl"
proof (induction i wl r rule: cancel_ride_loop.induct)
  case (1 i wl r)
  show ?case
  proof (cases "i < length wl")
    case False
    with "1.prems" have "r \<notin> set wl" by simp
    with False show ?thesis
      by (simp add: remove1_idem cancel_ride_loop.simps [of i wl r])
  next
    case True
    show ?thesis
    proof (cases "wl ! i = r")
      case False
      with True "1.prems" have "r \<notin> set (take (Suc i) wl)"
        by (simp add: take_Suc_conv_app_nth)
      with True False "1.IH"(2) "1.prems" show ?thesis
        by (simp add: cancel_ride_loop.simps [of i wl r])
    next
      case eq: True
      from "1.prems"(1) have "r \<notin> set (remove1 r wl)"
        by (rule remove1_last_occurrence)
      then have "cancel_ride_loop (Suc i) (remove1 r wl) r = remove1 r wl"
        by (rule cancel_ride_loop_absent)
      with True eq show ?thesis
        by (simp add: cancel_ride_loop.simps [of i wl r])
    qed
  qed
qed

text \<open>
  A rider who is on the waitlist twice in a row stays on it once: the removal shifts
  the second occurrence under the iterator's position. (No run from an input gets
  there, see \<open>run_from_input\<close>.)
\<close>

lemma cancel_ride_loop_twice: "cancel_ride_loop 0 [r, r] r = [r]"
  by (simp add: cancel_ride_loop.simps [of 0] cancel_ride_loop.simps [of "Suc 0"])

text \<open>
  C6. With a rider waiting, \<open>request_rider\<close> takes the front of the waitlist, whatever
  the positions are. With nobody waiting it returns none and appends the driver to the
  roster exactly when no driver of the roster has the driver's identifier (the \<open>in\<close> test
  of the source goes through \<open>Driver.__eq__\<close>).
\<close>

theorem request_rider_fifo:
  "(waitlist (disp w) = r # rs \<longrightarrow>
      request_rider w d = (w\<lparr>disp := (disp w)\<lparr>waitlist := rs\<rparr>\<rparr>, Some r))
   \<and> (waitlist (disp w) = []
        \<and> (\<forall>x \<in> set (drivers (disp w)).
              identifier_d (driver_at w x) \<noteq> identifier_d (driver_at w d)) \<longrightarrow>
        request_rider w d =
          (w\<lparr>disp := (disp w)\<lparr>drivers := drivers (disp w) @ [d]\<rparr>\<rparr>, None))
   \<and> (waitlist (disp w) = []
        \<and> (\<exists>x \<in> set (drivers (disp w)).
              identifier_d (driver_at w x) = identifier_d (driver_at w d)) \<longrightarrow>
        request_rider w d = (w, None))"
  by (auto simp: request_rider_def driver_eq_def list_ex_iff)

theorem request_rider_fifo_witness:
  "request_rider (scenario [0, 1] [3]) 1 = (scenario [1] [3], Some 0)
   \<and> request_rider (scenario [] [3]) 1 = (scenario [] [3, 1], None)
   \<and> request_rider (scenario [] [3, 1]) 1 = (scenario [] [3, 1], None)"
proof -
  have a: "waitlist (disp (scenario [0, 1] [3])) = 0 # [1]"
    by (simp add: scenario_def)
  have b: "waitlist (disp (scenario [] [3])) = []
      \<and> (\<forall>x \<in> set (drivers (disp (scenario [] [3]))).
            identifier_d (driver_at (scenario [] [3]) x)
            \<noteq> identifier_d (driver_at (scenario [] [3]) 1))"
    by (simp add: scenario_defs)
  have c: "waitlist (disp (scenario [] [3, 1])) = []
      \<and> (\<exists>x \<in> set (drivers (disp (scenario [] [3, 1]))).
            identifier_d (driver_at (scenario [] [3, 1]) x)
            = identifier_d (driver_at (scenario [] [3, 1]) 1))"
    by (simp add: scenario_defs)
  from request_rider_fifo [of "scenario [0, 1] [3]" 0 "[1]" 1]
    request_rider_fifo [of "scenario [] [3]" 0 "[]" 1]
    request_rider_fifo [of "scenario [] [3, 1]" 0 "[]" 1] a b c
  show ?thesis by (simp add: scenario_def)
qed

section \<open>The dispatcher's roster\<close>

lemma py_getitem_setitem:
  "py_getitem (py_setitem tbl k v) k' = (if k' = k then Inr v else py_getitem tbl k')"
  by (induction tbl) auto

lemma keys_py_setitem:
  "map fst (py_setitem tbl k v) =
     (if k \<in> set (map fst tbl) then map fst tbl else map fst tbl @ [k])"
proof (induction tbl)
  case Nil
  show ?case by simp
next
  case (Cons x tbl)
  obtain k' v' where x: "x = (k', v')" by (cases x)
  show ?case
  proof (cases "k' = k")
    case True
    then show ?thesis by (simp add: x)
  next
    case False
    with Cons show ?thesis by (simp add: x)
  qed
qed

lemma keys_fold_setitem:
  "set (map fst (fold (\<lambda>d tbl. py_setitem tbl (f d) d) ds [])) = f ` set ds"
  by (induction ds rule: rev_induct) (auto simp: keys_py_setitem)

lemma py_getitem_fold_setitem:
  "py_getitem (fold (\<lambda>d tbl. py_setitem tbl (f d) d) ds []) k =
     (if k \<in> f ` set ds then Inr (last (filter (\<lambda>d. f d = k) ds)) else Inl KeyError)"
  by (induction ds rule: rev_induct) (auto simp: py_getitem_setitem)

lemma py_min_Min:
  assumes "xs \<noteq> []"
  shows "py_min xs = Inr (Min (set xs))"
proof (cases xs)
  case Nil
  with assms show ?thesis by simp
next
  case (Cons x ys)
  have "fold min ys x = Min (set (x # ys))" by (simp only: Min.set_eq_fold)
  with Cons show ?thesis by simp
qed

lemma last_filter_split:
  assumes "\<exists>x \<in> set ds. P x"
  shows "\<exists>pre post. ds = pre @ last (filter P ds) # post \<and> P (last (filter P ds))
           \<and> (\<forall>x \<in> set post. \<not> P x)"
proof -
  from assms obtain ys x zs where ds: "ds = ys @ x # zs" and x: "P x"
    and zs: "\<forall>z \<in> set zs. \<not> P z"
    using split_list_last_prop [of ds P] by blast
  from ds x zs have "filter P ds = filter P ys @ [x]" by simp
  then have l: "last (filter P ds) = x" by simp
  show ?thesis
  proof (intro exI conjI)
    show "ds = ys @ last (filter P ds) # zs" by (simp add: l ds [symmetric])
    show "P (last (filter P ds))" by (simp add: l x)
    show "\<forall>x \<in> set zs. \<not> P x" by (rule zs)
  qed
qed

lemma py_remove_present:
  "\<exists>x \<in> set ds. eq x \<Longrightarrow> \<exists>ds'. py_remove eq ds = Inr ds'"
  by (induction ds) fastforce+

lemma py_remove_unique:
  "d \<in> set ds \<Longrightarrow> \<forall>x \<in> set ds. eq x \<longleftrightarrow> x = d \<Longrightarrow> py_remove eq ds = Inr (remove1 d ds)"
  by (induction ds) auto

lemma request_driver_choice:
  fixes w r
  defines "f \<equiv> \<lambda>d. manhattan_distance (location (driver_at w d)) (origin (rider_at w r))"
  assumes ne: "drivers (disp w) \<noteq> []"
  shows "\<exists>pre d post ds'.
           drivers (disp w) = pre @ d # post
           \<and> (\<forall>x \<in> set pre. f d \<le> f x) \<and> (\<forall>x \<in> set post. f d < f x)
           \<and> py_remove (\<lambda>x. driver_eq (driver_at w x) (driver_at w d)) (drivers (disp w))
               = Inr ds'
           \<and> request_driver w r = Inr (w\<lparr>disp := (disp w)\<lparr>drivers := ds'\<rparr>\<rparr>, Some d)"
proof -
  define ds where "ds = drivers (disp w)"
  define m where "m = Min (f ` set ds)"
  define d where "d = last (filter (\<lambda>d. f d = m) ds)"
  have tbl: "list_of_speeds w r = fold (\<lambda>d tbl. py_setitem tbl (f d) d) ds []"
    by (simp add: list_of_speeds_def f_def ds_def)
  have keys: "set (map fst (list_of_speeds w r)) = f ` set ds"
    unfolding tbl by (rule keys_fold_setitem)
  from ne have ds_ne: "ds \<noteq> []" by (simp add: ds_def)
  with keys have "map fst (list_of_speeds w r) \<noteq> []" by auto
  from py_min_Min [OF this] have mn: "py_min (map fst (list_of_speeds w r)) = Inr m"
    by (simp only: keys m_def)
  from ds_ne have in_img: "m \<in> f ` set ds" unfolding m_def by (intro Min_in) auto
  then have get: "py_getitem (list_of_speeds w r) m = Inr d"
    unfolding tbl d_def by (simp add: py_getitem_fold_setitem)
  from in_img have "\<exists>x \<in> set ds. f x = m" by auto
  from last_filter_split [OF this] obtain pre post where
    split: "ds = pre @ d # post" and fd: "f d = m" and post: "\<forall>x \<in> set post. f x \<noteq> m"
    unfolding d_def by blast
  have le: "m \<le> f x" if "x \<in> set ds" for x
    unfolding m_def using that by (intro Min_le) auto
  have "d \<in> set ds" by (subst split) simp
  then have "\<exists>x \<in> set ds. driver_eq (driver_at w x) (driver_at w d)"
    by (auto simp: driver_eq_def)
  from py_remove_present [OF this] obtain ds' where
    rm: "py_remove (\<lambda>x. driver_eq (driver_at w x) (driver_at w d)) ds = Inr ds'" ..
  have res: "request_driver w r = Inr (w\<lparr>disp := (disp w)\<lparr>drivers := ds'\<rparr>\<rparr>, Some d)"
    using ne rm unfolding request_driver_def ds_def [symmetric] by (simp add: mn get)
  have pre_le: "\<forall>x \<in> set pre. f d \<le> f x"
  proof
    fix x assume "x \<in> set pre"
    then have "x \<in> set ds" by (subst split) simp
    from le [OF this] fd show "f d \<le> f x" by simp
  qed
  have post_lt: "\<forall>x \<in> set post. f d < f x"
  proof
    fix x assume x: "x \<in> set post"
    then have "x \<in> set ds" by (subst split) simp
    from le [OF this] have "m \<le> f x" .
    moreover from post x have "f x \<noteq> m" by blast
    ultimately show "f d < f x" using fd by simp
  qed
  show ?thesis
  proof (intro exI conjI)
    show "drivers (disp w) = pre @ d # post" using split by (simp add: ds_def)
    show "\<forall>x \<in> set pre. f d \<le> f x" by (rule pre_le)
    show "\<forall>x \<in> set post. f d < f x" by (rule post_lt)
    show "py_remove (\<lambda>x. driver_eq (driver_at w x) (driver_at w d)) (drivers (disp w))
            = Inr ds'" using rm by (simp add: ds_def)
    show "request_driver w r = Inr (w\<lparr>disp := (disp w)\<lparr>drivers := ds'\<rparr>\<rparr>, Some d)"
      by (rule res)
  qed
qed


text \<open>
  C1, as amended. From a roster that is not empty \<open>request_driver\<close> returns a driver
  of the roster at minimal Manhattan distance from the rider's origin, and among the
  drivers at that distance the one inserted last: every driver before it is at least as
  far, every driver after it strictly farther. When the identifiers on the roster are
  distinct (what \<open>request_rider\<close> maintains, see \<open>run_wellformed\<close>), the roster
  afterwards is the old one without that driver, and no driver left on it compares
  equal to the one returned.
\<close>

theorem request_driver_nearest:
  assumes "drivers (disp w) \<noteq> []"
  shows "\<exists>pre d post ds'.
           request_driver w r = Inr (w\<lparr>disp := (disp w)\<lparr>drivers := ds'\<rparr>\<rparr>, Some d)
           \<and> drivers (disp w) = pre @ d # post
           \<and> (\<forall>x \<in> set pre.
                 manhattan_distance (location (driver_at w d)) (origin (rider_at w r))
                 \<le> manhattan_distance (location (driver_at w x)) (origin (rider_at w r)))
           \<and> (\<forall>x \<in> set post.
                 manhattan_distance (location (driver_at w d)) (origin (rider_at w r))
                 < manhattan_distance (location (driver_at w x)) (origin (rider_at w r)))
           \<and> (distinct (map (\<lambda>x. identifier_d (driver_at w x)) (drivers (disp w))) \<longrightarrow>
                 ds' = pre @ post
                 \<and> (\<forall>x \<in> set ds'. \<not> driver_eq (driver_at w x) (driver_at w d)))"
proof -
  from request_driver_choice [OF assms, of r] obtain pre d post ds' where
    split: "drivers (disp w) = pre @ d # post"
    and pre: "\<forall>x \<in> set pre.
                 manhattan_distance (location (driver_at w d)) (origin (rider_at w r))
                 \<le> manhattan_distance (location (driver_at w x)) (origin (rider_at w r))"
    and post: "\<forall>x \<in> set post.
                 manhattan_distance (location (driver_at w d)) (origin (rider_at w r))
                 < manhattan_distance (location (driver_at w x)) (origin (rider_at w r))"
    and rm: "py_remove (\<lambda>x. driver_eq (driver_at w x) (driver_at w d)) (drivers (disp w))
               = Inr ds'"
    and res: "request_driver w r = Inr (w\<lparr>disp := (disp w)\<lparr>drivers := ds'\<rparr>\<rparr>, Some d)"
    by blast
  have gone: "ds' = pre @ post
      \<and> (\<forall>x \<in> set ds'. \<not> driver_eq (driver_at w x) (driver_at w d))"
    if dist: "distinct (map (\<lambda>x. identifier_d (driver_at w x)) (drivers (disp w)))"
  proof -
    from dist have inj: "inj_on (\<lambda>x. identifier_d (driver_at w x)) (set (drivers (disp w)))"
      and dd: "distinct (drivers (disp w))"
      by (simp_all add: distinct_map)
    have d_in: "d \<in> set (drivers (disp w))" by (subst split) simp
    have eq_iff: "\<forall>x \<in> set (drivers (disp w)).
        driver_eq (driver_at w x) (driver_at w d) \<longleftrightarrow> x = d"
      using inj d_in by (auto simp: driver_eq_def dest: inj_onD)
    from py_remove_unique [OF d_in eq_iff] rm have "ds' = remove1 d (drivers (disp w))"
      by simp
    moreover from dd split have "d \<notin> set pre" "d \<notin> set post" by auto
    ultimately have ds': "ds' = pre @ post"
      by (simp add: split remove1_append)
    have "\<not> driver_eq (driver_at w x) (driver_at w d)" if "x \<in> set ds'" for x
    proof -
      from that ds' have "x \<in> set (drivers (disp w))" by (subst split) auto
      moreover from that ds' \<open>d \<notin> set pre\<close> \<open>d \<notin> set post\<close> have "x \<noteq> d" by auto
      ultimately show ?thesis using eq_iff by blast
    qed
    with ds' show ?thesis by blast
  qed
  show ?thesis
  proof (intro exI conjI impI)
    show "request_driver w r = Inr (w\<lparr>disp := (disp w)\<lparr>drivers := ds'\<rparr>\<rparr>, Some d)"
      by (rule res)
    show "drivers (disp w) = pre @ d # post" by (rule split)
    show "\<forall>x \<in> set pre.
            manhattan_distance (location (driver_at w d)) (origin (rider_at w r))
            \<le> manhattan_distance (location (driver_at w x)) (origin (rider_at w r))"
      by (rule pre)
    show "\<forall>x \<in> set post.
            manhattan_distance (location (driver_at w d)) (origin (rider_at w r))
            < manhattan_distance (location (driver_at w x)) (origin (rider_at w r))"
      by (rule post)
  next
    assume "distinct (map (\<lambda>x. identifier_d (driver_at w x)) (drivers (disp w)))"
    from gone [OF this] show "ds' = pre @ post" ..
  next
    assume "distinct (map (\<lambda>x. identifier_d (driver_at w x)) (drivers (disp w)))"
    from gone [OF this]
    show "\<forall>x \<in> set ds'. \<not> driver_eq (driver_at w x) (driver_at w d)" ..
  qed
qed

text \<open>The example of section 8: distances 5, 2 and 9.\<close>

lemma request_driver_spec_example:
  "request_driver (scenario [] [3, 1, 4]) 0 = Inr (scenario [] [3, 4], Some 1)"
  by (simp add: request_driver_def list_of_speeds_def scenario_defs manhattan_distance_def
        driver_eq_def)

theorem request_driver_nearest_witness:
  "drivers (disp (scenario [] [3, 1, 4])) \<noteq> []
   \<and> distinct (map (\<lambda>x. identifier_d (driver_at (scenario [] [3, 1, 4]) x))
                 (drivers (disp (scenario [] [3, 1, 4]))))
   \<and> request_driver (scenario [] [3, 1, 4]) 0 = Inr (scenario [] [3, 4], Some 1)
   \<and> (\<exists>pre d post ds'.
         request_driver (scenario [] [3, 1, 4]) 0 =
           Inr ((scenario [] [3, 1, 4])
                  \<lparr>disp := (disp (scenario [] [3, 1, 4]))\<lparr>drivers := ds'\<rparr>\<rparr>, Some d)
         \<and> drivers (disp (scenario [] [3, 1, 4])) = pre @ d # post
         \<and> ds' = pre @ post)"
proof -
  have h: "drivers (disp (scenario [] [3, 1, 4])) \<noteq> []"
    by (simp add: scenario_def)
  have d: "distinct (map (\<lambda>x. identifier_d (driver_at (scenario [] [3, 1, 4]) x))
                 (drivers (disp (scenario [] [3, 1, 4]))))"
    by (simp add: scenario_defs)
  from request_driver_nearest [OF h, of 0] d
  have "\<exists>pre d post ds'.
         request_driver (scenario [] [3, 1, 4]) 0 =
           Inr ((scenario [] [3, 1, 4])
                  \<lparr>disp := (disp (scenario [] [3, 1, 4]))\<lparr>drivers := ds'\<rparr>\<rparr>, Some d)
         \<and> drivers (disp (scenario [] [3, 1, 4])) = pre @ d # post
         \<and> ds' = pre @ post"
    by blast
  with h d request_driver_spec_example show ?thesis by blast
qed

text \<open>
  C1 as stated fails on ties: drivers 1 and 2 are both at distance 2, driver 1 was
  inserted first, and driver 2 is returned (the later driver overwrites the earlier one
  under the same key of \<open>list_of_speeds\<close>).
\<close>

theorem request_driver_first_inserted_counterexample:
  "manhattan_distance (location (driver_at (scenario [] [1, 2]) 1))
       (origin (rider_at (scenario [] [1, 2]) 0)) = 2
   \<and> manhattan_distance (location (driver_at (scenario [] [1, 2]) 2))
       (origin (rider_at (scenario [] [1, 2]) 0)) = 2
   \<and> request_driver (scenario [] [1, 2]) 0 = Inr (scenario [] [1], Some 2)"
  by (simp add: request_driver_def list_of_speeds_def scenario_defs manhattan_distance_def
        driver_eq_def)

section \<open>Events\<close>

text \<open>
  C9. A pickup whose rider is already satisfied notifies the monitor twice and does
  nothing else: it returns the empty list, and riders, drivers and dispatcher are as
  before.
\<close>

theorem Pickup_do_satisfied:
  "status (rider_at w r) = SATISFIED \<Longrightarrow>
   Pickup_do t r d w =
     Inr (w\<lparr>monitor := monitor w @
              [(t, RIDER, PICKUP, id_r (rider_at w r), origin (rider_at w r)),
               (t, DRIVER, PICKUP, identifier_d (driver_at w d), location (driver_at w d))]\<rparr>,
          Some [])"
  by (simp add: Pickup_do_def world_ops)

theorem Pickup_do_satisfied_witness:
  "status (rider_at world_satisfied 0) = SATISFIED
   \<and> Pickup_do 4 0 0 world_satisfied =
       Inr (world_satisfied
              \<lparr>monitor := [(4, RIDER, PICKUP, ''R'', \<lparr>row = 0, column = 3\<rparr>),
                           (4, DRIVER, PICKUP, ''D'', \<lparr>row = 0, column = 0\<rparr>)]\<rparr>,
            Some [])"
proof -
  have h: "status (rider_at world_satisfied 0) = SATISFIED"
    by (simp add: world_satisfied_def)
  from Pickup_do_satisfied [OF h, of 4 0] h show ?thesis
    by (simp add: world_satisfied_def world0_def rider_R_def Rider_def driver_D_def Driver_def)
qed

text \<open>
  C3. A pickup of a cancelled rider returns one \<open>DriverRequest\<close> for the same driver at
  the same timestamp and leaves the driver without destination. A pickup of a waiting
  rider, by a driver of positive speed whose travel time \<open>tt\<close> to the rider's origin is
  defined, sets the driver's destination to the rider's, marks the rider satisfied and
  returns one \<open>Dropoff\<close> at \<open>t + tt + distance div speed\<close>; the \<open>Dropoff\<close> constructor
  has already moved the driver to the rider's destination.
\<close>

theorem Pickup_do_effect:
  "(status (rider_at w r) = CANCELLED \<longrightarrow>
      Pickup_do t r d w =
        Inr (w\<lparr>monitor := monitor w @
                 [(t, RIDER, PICKUP, id_r (rider_at w r), origin (rider_at w r)),
                  (t, DRIVER, PICKUP, identifier_d (driver_at w d), location (driver_at w d))],
               driver_at := (driver_at w)(d := (driver_at w d)\<lparr>driver.destination := None\<rparr>)\<rparr>,
             Some [DriverRequest t d]))
   \<and> (status (rider_at w r) = WAITING \<and> 0 < speed (driver_at w d)
        \<and> get_travel_time (driver_at w d) (origin (rider_at w r)) = Inr tt \<longrightarrow>
      Pickup_do t r d w =
        Inr (w\<lparr>monitor := monitor w @
                 [(t, RIDER, PICKUP, id_r (rider_at w r), origin (rider_at w r)),
                  (t, DRIVER, PICKUP, identifier_d (driver_at w d), location (driver_at w d))],
               driver_at := (driver_at w)
                 (d := (driver_at w d)
                    \<lparr>driver.destination := Some (rider.destination (rider_at w r)),
                     idle := Some False,
                     location := rider.destination (rider_at w r)\<rparr>),
               rider_at := (rider_at w)(r := (rider_at w r)\<lparr>status := SATISFIED\<rparr>)\<rparr>,
             Some [Dropoff
                     (t + tt
                      + manhattan_distance (origin (rider_at w r))
                          (rider.destination (rider_at w r))
                        div speed (driver_at w d))
                     r d]))"
proof (intro conjI impI)
  assume "status (rider_at w r) = CANCELLED"
  then show "Pickup_do t r d w =
        Inr (w\<lparr>monitor := monitor w @
                 [(t, RIDER, PICKUP, id_r (rider_at w r), origin (rider_at w r)),
                  (t, DRIVER, PICKUP, identifier_d (driver_at w d), location (driver_at w d))],
               driver_at := (driver_at w)(d := (driver_at w d)\<lparr>driver.destination := None\<rparr>)\<rparr>,
             Some [DriverRequest t d])"
    by (simp add: Pickup_do_def world_ops)
next
  assume a: "status (rider_at w r) = WAITING \<and> 0 < speed (driver_at w d)
        \<and> get_travel_time (driver_at w d) (origin (rider_at w r)) = Inr tt"
  then have "0 \<le> tt" using get_travel_time_nonneg by blast
  with a show "Pickup_do t r d w =
        Inr (w\<lparr>monitor := monitor w @
                 [(t, RIDER, PICKUP, id_r (rider_at w r), origin (rider_at w r)),
                  (t, DRIVER, PICKUP, identifier_d (driver_at w d), location (driver_at w d))],
               driver_at := (driver_at w)
                 (d := (driver_at w d)
                    \<lparr>driver.destination := Some (rider.destination (rider_at w r)),
                     idle := Some False,
                     location := rider.destination (rider_at w r)\<rparr>),
               rider_at := (rider_at w)(r := (rider_at w r)\<lparr>status := SATISFIED\<rparr>)\<rparr>,
             Some [Dropoff
                     (t + tt
                      + manhattan_distance (origin (rider_at w r))
                          (rider.destination (rider_at w r))
                        div speed (driver_at w d))
                     r d])"
    by (simp add: Pickup_do_def world_ops start_drive_at_def start_drive_def py_floordiv_def
          Dropoff_init_def)
qed


lemma Pickup_do_scenario:
  "get_travel_time (driver_at world0 0) (origin (rider_at world0 0)) = Inr 3"
  unfolding world0_def driver_D_def rider_R_def Driver_def Rider_def
  by code_simp

theorem Pickup_do_effect_witness:
  "Pickup_do 4 0 0 (world0\<lparr>rider_at := (\<lambda>_. rider_R\<lparr>status := CANCELLED\<rparr>)\<rparr>) =
     Inr (world0
            \<lparr>rider_at := (\<lambda>_. rider_R\<lparr>status := CANCELLED\<rparr>),
             monitor := [(4, RIDER, PICKUP, ''R'', \<lparr>row = 0, column = 3\<rparr>),
                         (4, DRIVER, PICKUP, ''D'', \<lparr>row = 0, column = 0\<rparr>)],
             driver_at := (\<lambda>_. driver_D)(0 := driver_D\<lparr>driver.destination := None\<rparr>)\<rparr>,
          Some [DriverRequest 4 0])
   \<and> Pickup_do 4 0 0 world0 =
     Inr (world0
            \<lparr>monitor := [(4, RIDER, PICKUP, ''R'', \<lparr>row = 0, column = 3\<rparr>),
                         (4, DRIVER, PICKUP, ''D'', \<lparr>row = 0, column = 0\<rparr>)],
             driver_at := (\<lambda>_. driver_D)
               (0 := driver_D\<lparr>driver.destination := Some \<lparr>row = 0, column = 5\<rparr>,
                              idle := Some False,
                              location := \<lparr>row = 0, column = 5\<rparr>\<rparr>),
             rider_at := (\<lambda>_. rider_R)(0 := rider_R\<lparr>status := SATISFIED\<rparr>)\<rparr>,
          Some [Dropoff 9 0 0])"
proof -
  have a: "status (rider_at (world0\<lparr>rider_at := (\<lambda>_. rider_R\<lparr>status := CANCELLED\<rparr>)\<rparr>) 0)
             = CANCELLED"
    by simp
  have b: "status (rider_at world0 0) = WAITING \<and> 0 < speed (driver_at world0 0)
        \<and> get_travel_time (driver_at world0 0) (origin (rider_at world0 0)) = Inr 3"
    by (simp add: Pickup_do_scenario) (simp add: world0_def rider_R_def Rider_def driver_D_def Driver_def)
  from Pickup_do_effect [of "world0\<lparr>rider_at := (\<lambda>_. rider_R\<lparr>status := CANCELLED\<rparr>)\<rparr>" 0 4 0]
    Pickup_do_effect [of world0 0 4 0 3] a b
  show ?thesis
    by (simp add: world0_def rider_R_def Rider_def driver_D_def Driver_def
          manhattan_distance_def Dispatcher_def)
qed

lemma list_of_speeds_monitor [simp]:
  "list_of_speeds (w\<lparr>monitor := m\<rparr>) r = list_of_speeds w r"
  by (simp add: list_of_speeds_def)

lemma request_driver_notify:
  "request_driver (notify w n) r =
     (case request_driver w r of Inl e \<Rightarrow> Inl e | Inr (w', x) \<Rightarrow> Inr (notify w' n, x))"
  unfolding request_driver_def
  by (simp add: notify_def split: sum.splits)

lemma request_driver_frame:
  "request_driver w r = Inr (w', x) \<Longrightarrow>
   rider_at w' = rider_at w \<and> driver_at w' = driver_at w \<and> monitor w' = monitor w"
  unfolding request_driver_def
  by (auto split: sum.splits if_splits)

text \<open>
  C4. With an empty roster a rider request puts the rider on the waitlist and returns
  the cancellation at \<open>t + patience\<close> alone. With a non-empty roster \<open>request_driver\<close>
  matches a driver of the roster; when it matches \<open>d\<close> and \<open>d\<close>'s travel time \<open>tt\<close> to the
  rider's origin is defined, the request returns the pickup by \<open>d\<close> at \<open>t + tt\<close> and the
  cancellation at \<open>t + patience\<close>, and nothing else.
\<close>

theorem RiderRequest_do_events:
  "(drivers (disp w) = [] \<longrightarrow>
      RiderRequest_do t r w =
        Inr (w\<lparr>monitor := monitor w @
                 [(t, RIDER, REQUEST, id_r (rider_at w r), origin (rider_at w r))],
               disp := (disp w)\<lparr>waitlist := waitlist (disp w) @ [r]\<rparr>\<rparr>,
             Some [Cancellation (t + patience (rider_at w r)) r]))
   \<and> (drivers (disp w) \<noteq> [] \<longrightarrow>
        (\<exists>w' d. request_driver w r = Inr (w', Some d) \<and> d \<in> set (drivers (disp w))))
   \<and> (request_driver w r = Inr (w', Some d)
        \<and> get_travel_time (driver_at w d) (origin (rider_at w r)) = Inr tt \<longrightarrow>
      RiderRequest_do t r w =
        Inr (w'\<lparr>monitor := monitor w @
                  [(t, RIDER, REQUEST, id_r (rider_at w r), origin (rider_at w r))],
                driver_at := (driver_at w)
                  (d := (driver_at w d)
                     \<lparr>idle := Some False, location := origin (rider_at w r)\<rparr>)\<rparr>,
             Some [Pickup (t + tt) r d, Cancellation (t + patience (rider_at w r)) r]))"
proof (intro conjI impI)
  assume "drivers (disp w) = []"
  then show "RiderRequest_do t r w =
        Inr (w\<lparr>monitor := monitor w @
                 [(t, RIDER, REQUEST, id_r (rider_at w r), origin (rider_at w r))],
               disp := (disp w)\<lparr>waitlist := waitlist (disp w) @ [r]\<rparr>\<rparr>,
             Some [Cancellation (t + patience (rider_at w r)) r])"
    by (simp add: RiderRequest_do_def request_driver_notify)
      (simp add: request_driver_def notify_def)
next
  assume "drivers (disp w) \<noteq> []"
  from request_driver_choice [OF this, of r] obtain pre d post ds' where
    "drivers (disp w) = pre @ d # post"
    "request_driver w r = Inr (w\<lparr>disp := (disp w)\<lparr>drivers := ds'\<rparr>\<rparr>, Some d)"
    by blast
  then have "request_driver w r = Inr (w\<lparr>disp := (disp w)\<lparr>drivers := ds'\<rparr>\<rparr>, Some d)
      \<and> d \<in> set (drivers (disp w))"
    by simp
  then show "\<exists>w' d. request_driver w r = Inr (w', Some d) \<and> d \<in> set (drivers (disp w))"
    by blast
next
  assume a: "request_driver w r = Inr (w', Some d)
        \<and> get_travel_time (driver_at w d) (origin (rider_at w r)) = Inr tt"
  then have rd: "request_driver w r = Inr (w', Some d)"
    and tt: "get_travel_time (driver_at w d) (origin (rider_at w r)) = Inr tt"
    by simp_all
  from request_driver_frame [OF rd] have fr:
    "rider_at w' = rider_at w" "driver_at w' = driver_at w" "monitor w' = monitor w"
    by simp_all
  show "RiderRequest_do t r w =
        Inr (w'\<lparr>monitor := monitor w @
                  [(t, RIDER, REQUEST, id_r (rider_at w r), origin (rider_at w r))],
                driver_at := (driver_at w)
                  (d := (driver_at w d)
                     \<lparr>idle := Some False, location := origin (rider_at w r)\<rparr>)\<rparr>,
             Some [Pickup (t + tt) r d, Cancellation (t + patience (rider_at w r)) r])"
    by (simp add: RiderRequest_do_def request_driver_notify rd)
      (simp add: notify_def fr tt start_drive_at_def start_drive_def Pickup_init_def
        set_driver_def)
qed


lemma fleet_travel_time:
  "get_travel_time (driver_at (scenario [] [3, 1, 4]) 1)
     (origin (rider_at (scenario [] [3, 1, 4]) 0)) = Inr 2"
  unfolding scenario_defs by code_simp

theorem RiderRequest_do_events_witness:
  "RiderRequest_do 0 0 world0 =
     Inr (world0\<lparr>monitor := [(0, RIDER, REQUEST, ''R'', \<lparr>row = 0, column = 3\<rparr>)],
                 disp := \<lparr>waitlist = [0], drivers = []\<rparr>\<rparr>,
          Some [Cancellation 100 0])
   \<and> drivers (disp (scenario [] [3, 1, 4])) \<noteq> []
   \<and> (\<exists>w' d. request_driver (scenario [] [3, 1, 4]) 0 = Inr (w', Some d)
         \<and> d \<in> set (drivers (disp (scenario [] [3, 1, 4]))))
   \<and> RiderRequest_do 1 0 (scenario [] [3, 1, 4]) =
     Inr ((scenario [] [3, 4])
            \<lparr>monitor := [(1, RIDER, REQUEST, ''R'', \<lparr>row = 0, column = 3\<rparr>)],
             driver_at := fleet
               (1 := (fleet 1)\<lparr>idle := Some False, location := \<lparr>row = 0, column = 3\<rparr>\<rparr>)\<rparr>,
          Some [Pickup 3 0 1, Cancellation 101 0])"
proof -
  have a: "drivers (disp world0) = []"
    by (simp add: world0_def Dispatcher_def)
  have b: "drivers (disp (scenario [] [3, 1, 4])) \<noteq> []"
    by (simp add: scenario_def)
  have c: "request_driver (scenario [] [3, 1, 4]) 0 = Inr (scenario [] [3, 4], Some 1)
      \<and> get_travel_time (driver_at (scenario [] [3, 1, 4]) 1)
           (origin (rider_at (scenario [] [3, 1, 4]) 0)) = Inr 2"
    by (rule conjI [OF request_driver_spec_example fleet_travel_time])
  from RiderRequest_do_events [of world0 0 0] a
  have 1: "RiderRequest_do 0 0 world0 =
     Inr (world0\<lparr>monitor := [(0, RIDER, REQUEST, ''R'', \<lparr>row = 0, column = 3\<rparr>)],
                 disp := \<lparr>waitlist = [0], drivers = []\<rparr>\<rparr>,
          Some [Cancellation 100 0])"
    by (simp add: world0_def Dispatcher_def rider_R_def Rider_def)
  from RiderRequest_do_events [of "scenario [] [3, 1, 4]" 1 0 "scenario [] [3, 4]" 1 2] b c
  have 2: "(\<exists>w' d. request_driver (scenario [] [3, 1, 4]) 0 = Inr (w', Some d)
         \<and> d \<in> set (drivers (disp (scenario [] [3, 1, 4]))))"
    and 3: "RiderRequest_do 1 0 (scenario [] [3, 1, 4]) =
     Inr ((scenario [] [3, 4])
            \<lparr>monitor := [(1, RIDER, REQUEST, ''R'', \<lparr>row = 0, column = 3\<rparr>)],
             driver_at := fleet
               (1 := (fleet 1)\<lparr>idle := Some False, location := \<lparr>row = 0, column = 3\<rparr>\<rparr>)\<rparr>,
          Some [Pickup 3 0 1, Cancellation 101 0])"
    by (simp_all add: scenario_def rider_R_def Rider_def)
  from 1 b 2 3 show ?thesis by blast
qed

text \<open>
  C5. Cancelling a satisfied rider changes nothing and notifies nobody. Otherwise the
  rider becomes cancelled, the monitor is told of a rider cancel, and \<open>cancel_ride\<close> runs
  its loop over the waitlist: the loop leaves the waitlist as it is when the rider is
  not on it, and takes the rider off it when the rider is on it once (no rider is on it
  twice in a run where each rider requests once, see \<open>run_wellformed\<close>).
\<close>

theorem Cancellation_do_effect:
  "(status (rider_at w r) = SATISFIED \<longrightarrow> Cancellation_do t r w = Inr (w, None))
   \<and> (status (rider_at w r) \<noteq> SATISFIED \<longrightarrow>
        Cancellation_do t r w =
          Inr (w\<lparr>rider_at := (rider_at w)(r := (rider_at w r)\<lparr>status := CANCELLED\<rparr>),
                 monitor := monitor w @
                   [(t, RIDER, CANCEL, id_r (rider_at w r), origin (rider_at w r))],
                 disp := (disp w)
                   \<lparr>waitlist := cancel_ride_loop 0 (waitlist (disp w)) r\<rparr>\<rparr>,
               None))
   \<and> (r \<notin> set (waitlist (disp w)) \<longrightarrow>
        cancel_ride_loop 0 (waitlist (disp w)) r = waitlist (disp w))
   \<and> (count_list (waitlist (disp w)) r \<le> 1 \<longrightarrow>
        cancel_ride_loop 0 (waitlist (disp w)) r = remove1 r (waitlist (disp w))
        \<and> r \<notin> set (cancel_ride_loop 0 (waitlist (disp w)) r))"
  by (simp add: Cancellation_do_def world_ops cancel_ride_def cancel_ride_loop_once Let_def
        remove1_last_occurrence remove1_idem)

theorem Cancellation_do_effect_witness:
  "Cancellation_do 5 0 world_satisfied = Inr (world_satisfied, None)
   \<and> Cancellation_do 5 0 (scenario [1, 0] []) =
       Inr ((scenario [1] [])
              \<lparr>rider_at := (\<lambda>_. rider_R)(0 := rider_R\<lparr>status := CANCELLED\<rparr>),
               monitor := [(5, RIDER, CANCEL, ''R'', \<lparr>row = 0, column = 3\<rparr>)]\<rparr>,
            None)
   \<and> cancel_ride_loop 0 (waitlist (disp (scenario [1, 2] []))) 0 = [1, 2]
   \<and> cancel_ride_loop 0 (waitlist (disp (scenario [1, 0] []))) 0 = [1]"
proof -
  have a: "status (rider_at world_satisfied 0) = SATISFIED"
    by (simp add: world_satisfied_def)
  have b: "status (rider_at (scenario [1, 0] []) 0) \<noteq> SATISFIED"
    by (simp add: scenario_defs)
  have c: "0 \<notin> set (waitlist (disp (scenario [1, 2] [])))"
    by (simp add: scenario_def)
  have d: "count_list (waitlist (disp (scenario [1, 0] []))) 0 \<le> 1"
    by (simp add: scenario_def)
  from Cancellation_do_effect [of world_satisfied 0 5] a
  have 1: "Cancellation_do 5 0 world_satisfied = Inr (world_satisfied, None)" by simp
  from Cancellation_do_effect [of "scenario [1, 2] []" 0 5] c
  have 2: "cancel_ride_loop 0 (waitlist (disp (scenario [1, 2] []))) 0 = [1, 2]"
    by (simp add: scenario_def)
  from Cancellation_do_effect [of "scenario [1, 0] []" 0 5] b d
  have 3: "cancel_ride_loop 0 (waitlist (disp (scenario [1, 0] []))) 0 = [1]"
    and 4: "Cancellation_do 5 0 (scenario [1, 0] []) =
       Inr ((scenario [1] [])
              \<lparr>rider_at := (\<lambda>_. rider_R)(0 := rider_R\<lparr>status := CANCELLED\<rparr>),
               monitor := [(5, RIDER, CANCEL, ''R'', \<lparr>row = 0, column = 3\<rparr>)]\<rparr>,
            None)"
    by (simp_all add: scenario_defs)
  from 1 2 3 4 show ?thesis by blast
qed

lemma RiderRequest_do_list: "RiderRequest_do t r w = Inr (w', res) \<Longrightarrow> \<exists>es. res = Some es"
  unfolding RiderRequest_do_def Let_def Pickup_init_def
  by (simp split: sum.splits prod.splits option.splits) auto

lemma DriverRequest_do_list: "DriverRequest_do t d w = Inr (w', res) \<Longrightarrow> \<exists>es. res = Some es"
  unfolding DriverRequest_do_def Let_def Pickup_init_def
  by (simp split: sum.splits prod.splits option.splits) auto

lemma Pickup_do_list: "Pickup_do t r d w = Inr (w', res) \<Longrightarrow> \<exists>es. res = Some es"
  unfolding Pickup_do_def Let_def Dropoff_init_def
  by (simp split: sum.splits prod.splits if_splits) auto

lemma Dropoff_do_list: "Dropoff_do t r d w = Inr (w', res) \<Longrightarrow> \<exists>es. res = Some es"
  unfolding Dropoff_do_def Let_def by auto

lemma Cancellation_do_None: "\<exists>w'. Cancellation_do t r w = Inr (w', None)"
  unfolding Cancellation_do_def Let_def by simp

text \<open>
  C10. \<open>Cancellation.do\<close> returns \<open>None\<close> from every world; whenever one of the other four
  \<open>do\<close> methods returns, it returns a list.
\<close>

theorem Cancellation_do_returns_None:
  "(\<exists>w'. Cancellation_do t r w = Inr (w', None))
   \<and> (RiderRequest_do t r w = Inr (w1, res1) \<longrightarrow> (\<exists>es. res1 = Some es))
   \<and> (DriverRequest_do t d w = Inr (w2, res2) \<longrightarrow> (\<exists>es. res2 = Some es))
   \<and> (Pickup_do t r d w = Inr (w3, res3) \<longrightarrow> (\<exists>es. res3 = Some es))
   \<and> (Dropoff_do t r d w = Inr (w4, res4) \<longrightarrow> (\<exists>es. res4 = Some es))"
proof (intro conjI impI)
  show "\<exists>w'. Cancellation_do t r w = Inr (w', None)"
    by (rule Cancellation_do_None)
qed (erule RiderRequest_do_list DriverRequest_do_list Pickup_do_list Dropoff_do_list)+

lemmas world0_defs = world0_def Dispatcher_def rider_R_def Rider_def driver_D_def Driver_def

lemma world0_RiderRequest:
  "\<exists>w'. RiderRequest_do 0 0 world0 = Inr (w', Some [Cancellation 100 0])"
  by (simp add: RiderRequest_do_def request_driver_def notify_def world0_defs)

lemma world0_DriverRequest:
  "\<exists>w'. DriverRequest_do 0 0 world0 = Inr (w', Some [])"
  by (simp add: DriverRequest_do_def request_rider_def notify_def world0_defs)

lemma world0_Pickup:
  "\<exists>w'. Pickup_do 0 0 0 world0 = Inr (w', Some [Dropoff 5 0 0])"
proof -
  have "get_travel_time (driver_D\<lparr>driver.destination := Some \<lparr>row = 0, column = 5\<rparr>\<rparr>)
          \<lparr>row = 0, column = 3\<rparr> = Inr 3"
    unfolding driver_D_def Driver_def by code_simp
  then show ?thesis
    by (simp add: Pickup_do_def world_ops start_drive_at_def start_drive_def py_floordiv_def
          Dropoff_init_def world0_def rider_R_def Rider_def manhattan_distance_def)
      (simp add: driver_D_def Driver_def)
qed

lemma world0_Dropoff:
  "\<exists>w'. Dropoff_do 0 0 0 world0 = Inr (w', Some [DriverRequest 0 0])"
  by (simp add: Dropoff_do_def Let_def)

theorem Cancellation_do_returns_None_witness:
  "(\<exists>w'. Cancellation_do 0 0 world0 = Inr (w', None))
   \<and> (\<exists>w'. RiderRequest_do 0 0 world0 = Inr (w', Some [Cancellation 100 0]))
   \<and> (\<exists>w'. DriverRequest_do 0 0 world0 = Inr (w', Some []))
   \<and> (\<exists>w'. Pickup_do 0 0 0 world0 = Inr (w', Some [Dropoff 5 0 0]))
   \<and> (\<exists>w'. Dropoff_do 0 0 0 world0 = Inr (w', Some [DriverRequest 0 0]))
   \<and> (\<exists>es. Some [Cancellation 100 0] = Some es)"
proof -
  from world0_RiderRequest obtain w1 where
    1: "RiderRequest_do 0 0 world0 = Inr (w1, Some [Cancellation 100 0])" ..
  from world0_DriverRequest obtain w2 where
    2: "DriverRequest_do 0 0 world0 = Inr (w2, Some [])" ..
  from world0_Pickup obtain w3 where
    3: "Pickup_do 0 0 0 world0 = Inr (w3, Some [Dropoff 5 0 0])" ..
  from world0_Dropoff obtain w4 where
    4: "Dropoff_do 0 0 0 world0 = Inr (w4, Some [DriverRequest 0 0])" ..
  from Cancellation_do_returns_None
    [of 0 0 world0 w1 "Some [Cancellation 100 0]" 0 w2 "Some []" w3 "Some [Dropoff 5 0 0]"
        w4 "Some [DriverRequest 0 0]"] 1 2 3 4
  show ?thesis by blast
qed

section \<open>Drivers: who assigns the destination\<close>

lemma start_drive_at_destination:
  "start_drive_at w d loc = Inr (w', t) \<Longrightarrow>
   driver.destination (driver_at w' d) = driver.destination (driver_at w d)
   \<and> rider_at w' = rider_at w"
  by (auto simp: start_drive_at_def start_drive_def set_driver_def split: sum.splits)

lemma Pickup_do_waiting_destination:
  assumes "status (rider_at w r) = WAITING" and "Pickup_do t r d w = Inr (w', res)"
  shows "driver.destination (driver_at w' d) = Some (rider.destination (rider_at w r))"
  using assms unfolding Pickup_do_def Let_def Dropoff_init_def
  by (auto simp: world_ops split: sum.splits dest!: start_drive_at_destination)

lemma Pickup_do_cancelled_destination:
  assumes "status (rider_at w r) = CANCELLED" and "Pickup_do t r d w = Inr (w', res)"
  shows "driver.destination (driver_at w' d) = None"
  using assms unfolding Pickup_do_def Let_def
  by (auto simp: world_ops)

lemma Dropoff_do_destination:
  assumes "Dropoff_do t r d w = Inr (w', res)"
  shows "driver.destination (driver_at w' d) = None"
  using assms unfolding Dropoff_do_def Let_def
  by (auto simp: world_ops)

lemma world0_Pickup_cancelled:
  "\<exists>w'. Pickup_do 4 0 0 (world0\<lparr>rider_at := (\<lambda>_. rider_R\<lparr>status := CANCELLED\<rparr>)\<rparr>)
           = Inr (w', Some [DriverRequest 4 0])"
  by (simp add: Pickup_do_def world_ops)

text \<open>
  C7, as amended. \<open>start_drive\<close> returns the driver's travel time to the target and
  leaves the driver's destination as it was; \<open>end_drive\<close> and \<open>end_ride\<close> set \<open>is_idle\<close>
  and leave the destination as it was. The destination is assigned by the events:
  \<open>Pickup.do\<close> sets it to the rider's destination when the rider is waiting and clears
  it when the rider is cancelled, and \<open>Dropoff.do\<close> clears it.
\<close>

theorem start_drive_keeps_destination:
  "(start_drive d loc = Inr (d', t) \<longrightarrow>
      get_travel_time d loc = Inr t \<and> driver.destination d' = driver.destination d)
   \<and> is_idle (end_drive d) \<and> driver.destination (end_drive d) = driver.destination d
   \<and> is_idle (end_ride d) \<and> driver.destination (end_ride d) = driver.destination d
   \<and> (status (rider_at w r) = WAITING \<and> Pickup_do ts r dr w = Inr (w1, res1) \<longrightarrow>
        driver.destination (driver_at w1 dr) = Some (rider.destination (rider_at w r)))
   \<and> (status (rider_at w r) = CANCELLED \<and> Pickup_do ts r dr w = Inr (w2, res2) \<longrightarrow>
        driver.destination (driver_at w2 dr) = None)
   \<and> (Dropoff_do ts r dr w = Inr (w3, res3) \<longrightarrow>
        driver.destination (driver_at w3 dr) = None)"
proof (intro conjI impI)
  assume "start_drive d loc = Inr (d', t)"
  then show "get_travel_time d loc = Inr t" "driver.destination d' = driver.destination d"
    by (auto simp: start_drive_def split: sum.splits)
next
  show "is_idle (end_drive d)" "driver.destination (end_drive d) = driver.destination d"
    by (simp_all add: end_drive_def)
  show "is_idle (end_ride d)" "driver.destination (end_ride d) = driver.destination d"
    by (simp_all add: end_ride_def)
next
  assume "status (rider_at w r) = WAITING \<and> Pickup_do ts r dr w = Inr (w1, res1)"
  then show "driver.destination (driver_at w1 dr) = Some (rider.destination (rider_at w r))"
    using Pickup_do_waiting_destination by blast
next
  assume "status (rider_at w r) = CANCELLED \<and> Pickup_do ts r dr w = Inr (w2, res2)"
  then show "driver.destination (driver_at w2 dr) = None"
    using Pickup_do_cancelled_destination by blast
next
  assume "Dropoff_do ts r dr w = Inr (w3, res3)"
  then show "driver.destination (driver_at w3 dr) = None"
    by (rule Dropoff_do_destination)
qed

theorem start_drive_keeps_destination_witness:
  "start_drive king1 loc98 = Inr (king1\<lparr>idle := Some False\<rparr>, 15)
   \<and> get_travel_time king1 loc98 = Inr 15
   \<and> driver.destination (king1\<lparr>idle := Some False\<rparr>) = driver.destination king1
   \<and> (\<exists>w'. Pickup_do 0 0 0 world0 = Inr (w', Some [Dropoff 5 0 0])
          \<and> driver.destination (driver_at w' 0) = Some \<lparr>row = 0, column = 5\<rparr>)
   \<and> (\<exists>w'. Pickup_do 4 0 0 (world0\<lparr>rider_at := (\<lambda>_. rider_R\<lparr>status := CANCELLED\<rparr>)\<rparr>)
            = Inr (w', Some [DriverRequest 4 0])
          \<and> driver.destination (driver_at w' 0) = None)
   \<and> (\<exists>w'. Dropoff_do 0 0 0 world0 = Inr (w', Some [DriverRequest 0 0])
          \<and> driver.destination (driver_at w' 0) = None)"
proof -
  have h: "start_drive king1 loc98 = Inr (king1\<lparr>idle := Some False\<rparr>, 15)"
    by (simp add: start_drive_def king1_travel_time)
  have s0: "status (rider_at world0 0) = WAITING"
    and d0: "rider.destination (rider_at world0 0) = \<lparr>row = 0, column = 5\<rparr>"
    by (simp_all add: world0_def rider_R_def Rider_def)
  have sc: "status (rider_at (world0\<lparr>rider_at := (\<lambda>_. rider_R\<lparr>status := CANCELLED\<rparr>)\<rparr>) 0)
              = CANCELLED"
    by simp
  from world0_Pickup obtain w1 where
    p1: "Pickup_do 0 0 0 world0 = Inr (w1, Some [Dropoff 5 0 0])" ..
  from world0_Pickup_cancelled obtain w2 where
    p2: "Pickup_do 4 0 0 (world0\<lparr>rider_at := (\<lambda>_. rider_R\<lparr>status := CANCELLED\<rparr>)\<rparr>)
           = Inr (w2, Some [DriverRequest 4 0])" ..
  from world0_Dropoff obtain w3 where
    p3: "Dropoff_do 0 0 0 world0 = Inr (w3, Some [DriverRequest 0 0])" ..
  from start_drive_keeps_destination
    [of king1 loc98 "king1\<lparr>idle := Some False\<rparr>" 15 world0 0 0 0 w1
        "Some [Dropoff 5 0 0]" w1 "Some [Dropoff 5 0 0]" w3 "Some [DriverRequest 0 0]"]
    h s0 p1 p3 d0
  have a: "get_travel_time king1 loc98 = Inr 15"
    "driver.destination (king1\<lparr>idle := Some False\<rparr>) = driver.destination king1"
    "driver.destination (driver_at w1 0) = Some \<lparr>row = 0, column = 5\<rparr>"
    "driver.destination (driver_at w3 0) = None"
    by simp_all
  from start_drive_keeps_destination
    [of king1 loc98 "king1\<lparr>idle := Some False\<rparr>" 15
        "world0\<lparr>rider_at := (\<lambda>_. rider_R\<lparr>status := CANCELLED\<rparr>)\<rparr>" 0 4 0 w2
        "Some [DriverRequest 4 0]" w2 "Some [DriverRequest 4 0]" w2 "Some [DriverRequest 4 0]"]
    sc p2
  have b: "driver.destination (driver_at w2 0) = None" by simp
  from h a b p1 p2 p3 show ?thesis by blast
qed

text \<open>
  C7 as stated fails: after \<open>start_drive\<close> towards \<open>(9, 8)\<close> the driver of the doctest has
  no destination and \<open>is_idle\<close> still holds (the method assigns \<open>idle\<close>), and \<open>end_drive\<close>
  and \<open>end_ride\<close> keep a destination that was set.
\<close>

theorem start_drive_sets_destination_counterexample:
  "start_drive king1 loc98 = Inr (king1\<lparr>idle := Some False\<rparr>, 15)
   \<and> driver.destination (king1\<lparr>idle := Some False\<rparr>) \<noteq> Some loc98
   \<and> is_idle (king1\<lparr>idle := Some False\<rparr>)
   \<and> driver.destination (end_drive (king1\<lparr>driver.destination := Some loc98\<rparr>)) \<noteq> None
   \<and> driver.destination (end_ride (king1\<lparr>driver.destination := Some loc98\<rparr>)) \<noteq> None"
  by (simp add: start_drive_def king1_travel_time end_drive_def end_ride_def)
    (simp add: king1_def Driver_def)

section \<open>Runs: the status of a rider\<close>

lemma request_rider_frame:
  "request_rider w d = (w', x) \<Longrightarrow> rider_at w' = rider_at w"
  by (auto simp: request_rider_def split: list.splits if_splits)

lemma start_drive_at_frame:
  "start_drive_at w d loc = Inr (w', t) \<Longrightarrow> rider_at w' = rider_at w"
  by (auto simp: start_drive_at_def set_driver_def split: sum.splits)

lemma RiderRequest_do_riders:
  assumes "RiderRequest_do t r w = Inr (w', res)"
  shows "rider_at w' = rider_at w \<and> (\<forall>e \<in> set (successors res). dropoff_settled w' e)"
  using assms unfolding RiderRequest_do_def Let_def Pickup_init_def
  by (auto simp: request_driver_notify successors_def set_driver_def notify_def
      split: sum.splits prod.splits option.splits
      dest!: request_driver_frame start_drive_at_frame)

lemma DriverRequest_do_riders:
  assumes "DriverRequest_do t d w = Inr (w', res)"
  shows "rider_at w' = rider_at w \<and> (\<forall>e \<in> set (successors res). dropoff_settled w' e)"
  using assms unfolding DriverRequest_do_def Let_def Pickup_init_def
  by (auto simp: successors_def set_driver_def notify_def
      split: sum.splits prod.splits option.splits
      dest!: request_rider_frame start_drive_at_frame)

lemma Cancellation_do_riders:
  assumes "Cancellation_do t r w = Inr (w', res)"
  shows "(\<forall>x. status (rider_at w' x) =
            (if x = r \<and> status (rider_at w r) \<noteq> SATISFIED then CANCELLED
             else status (rider_at w x)))
         \<and> successors res = []"
  using assms unfolding Cancellation_do_def Let_def
  by (auto simp: successors_def world_ops cancel_ride_def split: if_splits)

lemma Pickup_do_riders:
  assumes "Pickup_do t r d w = Inr (w', res)"
  shows "(\<forall>x. status (rider_at w' x) =
            (if x = r \<and> status (rider_at w r) = WAITING then SATISFIED
             else status (rider_at w x)))
         \<and> (\<forall>e \<in> set (successors res). dropoff_settled w' e)"
  using assms unfolding Pickup_do_def Let_def Dropoff_init_def start_drive_at_def
  by (auto simp: successors_def world_ops split: if_splits sum.splits prod.splits)

lemma Dropoff_do_riders:
  assumes "Dropoff_do t r d w = Inr (w', res)"
  shows "(\<forall>x. status (rider_at w' x) = (if x = r then SATISFIED else status (rider_at w x)))
         \<and> (\<forall>e \<in> set (successors res). dropoff_settled w' e)"
  using assms unfolding Dropoff_do_def Let_def
  by (auto simp: successors_def world_ops)

lemma dropoff_settled_mono:
  assumes "\<forall>x. status (rider_at w x) \<noteq> WAITING \<longrightarrow> status (rider_at w' x) = status (rider_at w x)"
    and "dropoff_settled w e"
  shows "dropoff_settled w' e"
  using assms by (cases e) auto

lemma status_cancelled: "s \<noteq> SATISFIED \<Longrightarrow> s \<noteq> WAITING \<Longrightarrow> CANCELLED = s"
  by (cases s) simp_all

lemma do_event_status:
  assumes inv: "dropoff_settled w e" and run: "do_event e w = Inr (w', res)"
  shows "(\<forall>x. status (rider_at w x) \<noteq> WAITING \<longrightarrow>
              status (rider_at w' x) = status (rider_at w x))
         \<and> (\<forall>e' \<in> set (successors res). dropoff_settled w' e')"
proof (cases e)
  case (RiderRequest t r)
  with run RiderRequest_do_riders [of t r w w' res] show ?thesis by simp
next
  case (DriverRequest t d)
  with run DriverRequest_do_riders [of t d w w' res] show ?thesis by simp
next
  case (Cancellation t r)
  with run Cancellation_do_riders [of t r w w' res] show ?thesis
    by (auto intro: status_cancelled)
next
  case (Pickup t r d)
  with run Pickup_do_riders [of t r d w w' res] show ?thesis by auto
next
  case (Dropoff t r d)
  with run inv Dropoff_do_riders [of t r d w w' res] show ?thesis by auto
qed

lemma run_status:
  assumes "\<forall>e \<in> set q. dropoff_settled w e" and "run cs (w, q) = Inr (w', q')"
  shows "(\<forall>x. status (rider_at w x) \<noteq> WAITING \<longrightarrow>
              status (rider_at w' x) = status (rider_at w x))
         \<and> (\<forall>e \<in> set q'. dropoff_settled w' e)"
  using assms
proof (induction cs arbitrary: w q)
  case Nil
  then show ?case by simp
next
  case (Cons c cs)
  show ?case
  proof (cases c)
    case (Discard i)
    have "set (take i q @ drop (Suc i) q) \<subseteq> set q"
      by (auto dest: in_set_takeD in_set_dropD)
    with Cons.prems(1) have "\<forall>e \<in> set (take i q @ drop (Suc i) q). dropoff_settled w e"
      by blast
    from Cons.IH [OF this] Cons.prems(2) Discard show ?thesis by simp
  next
    case (Execute i)
    show ?thesis
    proof (cases "i < length q")
      case False
      with Cons.IH [OF Cons.prems(1)] Cons.prems(2) Execute show ?thesis by simp
    next
      case True
      with Cons.prems(2) Execute obtain w1 res where
        ev: "do_event (q ! i) w = Inr (w1, res)"
        and rest: "run cs (w1, take i q @ drop (Suc i) q @ successors res) = Inr (w', q')"
        by (auto split: sum.splits)
      from True Cons.prems(1) have "dropoff_settled w (q ! i)" by simp
      from do_event_status [OF this ev] have
        mono: "\<forall>x. status (rider_at w x) \<noteq> WAITING \<longrightarrow>
                 status (rider_at w1 x) = status (rider_at w x)"
        and new: "\<forall>e' \<in> set (successors res). dropoff_settled w1 e'"
        by simp_all
      have old: "\<forall>e \<in> set q. dropoff_settled w1 e"
        using dropoff_settled_mono [OF mono] Cons.prems(1) by blast
      have "set (take i q @ drop (Suc i) q @ successors res) \<subseteq> set q \<union> set (successors res)"
        by (auto dest: in_set_takeD in_set_dropD)
      with old new have
        "\<forall>e \<in> set (take i q @ drop (Suc i) q @ successors res). dropoff_settled w1 e"
        by blast
      from Cons.IH [OF this rest] have
        mono': "\<forall>x. status (rider_at w1 x) \<noteq> WAITING \<longrightarrow>
                  status (rider_at w' x) = status (rider_at w1 x)"
        and inv': "\<forall>e \<in> set q'. dropoff_settled w' e"
        by simp_all
      from mono mono' have "\<forall>x. status (rider_at w x) \<noteq> WAITING \<longrightarrow>
              status (rider_at w' x) = status (rider_at w x)"
        by metis
      with inv' show ?thesis by simp
    qed
  qed
qed

lemma requests_settled: "list_all is_request q \<Longrightarrow> \<forall>e \<in> set q. dropoff_settled w e"
proof
  fix e assume "list_all is_request q" "e \<in> set q"
  then have "is_request e" by (simp add: list_all_iff)
  then show "dropoff_settled w e" by (cases e) simp_all
qed

text \<open>
  C2. Take any run that starts from requests only (the events of an input), whatever
  the order in which pending events are executed or discarded. Once a rider is cancelled
  or satisfied at some point of the run, the rider has the same status at every later
  point.
\<close>

theorem rider_status_monotone:
  assumes "list_all is_request q0"
    and "run cs (w0, q0) = Inr (w, q)"
    and "run cs' (w, q) = Inr (w', q')"
    and "status (rider_at w r) \<noteq> WAITING"
  shows "status (rider_at w' r) = status (rider_at w r)"
proof -
  from run_status [OF requests_settled [OF assms(1)] assms(2)]
  have "\<forall>e \<in> set q. dropoff_settled w e" by simp
  from run_status [OF this assms(3)] assms(4) show ?thesis by simp
qed

lemmas event_defs = RiderRequest_do_def DriverRequest_do_def Cancellation_do_def Pickup_do_def
  Dropoff_do_def Pickup_init_def Dropoff_init_def start_drive_at_def start_drive_def
  request_rider_def request_driver_def list_of_speeds_def cancel_ride_def py_floordiv_def
  driver_eq_def manhattan_distance_def round_half_even_def successors_def

text \<open>
  The scenario of section 8 in timestamp order: the pickup is scheduled at 4 and the
  dropoff at 6, the rider is satisfied once the pickup has run, and stays so through
  the dropoff, the next driver request and the cancellation at 101.
\<close>

lemma section8_run:
  "\<exists>w. run [Execute 0, Execute 0, Execute 0] (world0, [DriverRequest 0 0, RiderRequest 1 0])
          = Inr (w, [Cancellation 101 0, Dropoff 6 0 0])
       \<and> status (rider_at w 0) = SATISFIED
       \<and> (\<exists>w'. run [Execute 1, Execute 1, Execute 0] (w, [Cancellation 101 0, Dropoff 6 0 0])
                  = Inr (w', [])
              \<and> status (rider_at w' 0) = SATISFIED)"
  by (simp add: world0_defs world_ops event_defs get_travel_time_exact)

theorem rider_status_monotone_witness:
  "list_all is_request [DriverRequest 0 0, RiderRequest 1 0]
   \<and> (\<exists>w w'.
         run [Execute 0, Execute 0, Execute 0] (world0, [DriverRequest 0 0, RiderRequest 1 0])
           = Inr (w, [Cancellation 101 0, Dropoff 6 0 0])
         \<and> run [Execute 1, Execute 1, Execute 0] (w, [Cancellation 101 0, Dropoff 6 0 0])
             = Inr (w', [])
         \<and> status (rider_at w 0) = SATISFIED
         \<and> status (rider_at w' 0) = status (rider_at w 0))"
proof -
  have a: "list_all is_request [DriverRequest 0 0, RiderRequest 1 0]" by simp
  from section8_run obtain w w' where
    b: "run [Execute 0, Execute 0, Execute 0] (world0, [DriverRequest 0 0, RiderRequest 1 0])
          = Inr (w, [Cancellation 101 0, Dropoff 6 0 0])"
    and c: "run [Execute 1, Execute 1, Execute 0] (w, [Cancellation 101 0, Dropoff 6 0 0])
          = Inr (w', [])"
    and d: "status (rider_at w 0) = SATISFIED"
    by blast
  from d have e: "status (rider_at w 0) \<noteq> WAITING" by simp
  from rider_status_monotone [OF a b c e] a b c d show ?thesis by blast
qed

section \<open>Runs: the waitlist and the roster\<close>

lemma py_remove_split:
  "py_remove eq ds = Inr ds' \<Longrightarrow> \<exists>pre x post. ds = pre @ x # post \<and> ds' = pre @ post"
proof (induction ds arbitrary: ds')
  case Nil
  then show ?case by simp
next
  case (Cons a ds)
  show ?case
  proof (cases "eq a")
    case True
    with Cons.prems have "a # ds = [] @ a # ds \<and> ds' = [] @ ds" by simp
    then show ?thesis by blast
  next
    case False
    with Cons.prems obtain ys where ys: "py_remove eq ds = Inr ys" and ds': "ds' = a # ys"
      by (auto split: sum.splits)
    from Cons.IH [OF ys] obtain pre x post where "ds = pre @ x # post" "ys = pre @ post"
      by blast
    with ds' have "a # ds = (a # pre) @ x # post \<and> ds' = (a # pre) @ post" by simp
    then show ?thesis by blast
  qed
qed

lemma request_driver_wellformed:
  assumes "request_driver w r = Inr (w', x)"
  shows "driver_at w' = driver_at w"
    and "distinct (roster_ids w) \<Longrightarrow> distinct (roster_ids w')"
    and "waitlist (disp w') = waitlist (disp w) \<or> waitlist (disp w') = waitlist (disp w) @ [r]"
proof -
  from request_driver_frame [OF assms] show fr: "driver_at w' = driver_at w" by simp
  show "waitlist (disp w') = waitlist (disp w) \<or> waitlist (disp w') = waitlist (disp w) @ [r]"
    using assms unfolding request_driver_def by (auto split: if_splits sum.splits)
  show "distinct (roster_ids w')" if dist: "distinct (roster_ids w)"
  proof (cases "drivers (disp w) = []")
    case True
    with assms dist show ?thesis by (auto simp: request_driver_def roster_ids_def)
  next
    case False
    with assms obtain ds d where
      rm: "py_remove (\<lambda>x. driver_eq (driver_at w x) (driver_at w d)) (drivers (disp w)) = Inr ds"
      and w': "w' = w\<lparr>disp := (disp w)\<lparr>drivers := ds\<rparr>\<rparr>"
      unfolding request_driver_def by (auto split: sum.splits)
    from py_remove_split [OF rm] obtain pre y post where
      "drivers (disp w) = pre @ y # post" "ds = pre @ post" by blast
    with dist show ?thesis by (simp add: roster_ids_def w')
  qed
qed

lemma roster_ids_set_driver:
  "identifier_d x = identifier_d (driver_at w d) \<Longrightarrow> roster_ids (set_driver w d x) = roster_ids w"
  by (simp add: roster_ids_def set_driver_def)

lemma disp_simps [simp]:
  "disp (set_driver w d x) = disp w"
  "disp (set_rider w r y) = disp w"
  "disp (notify w n) = disp w"
  "roster_ids (set_rider w r y) = roster_ids w"
  "roster_ids (notify w n) = roster_ids w"
  by (simp_all add: world_ops roster_ids_def)

lemma start_drive_at_disp:
  assumes "start_drive_at w d loc = Inr (w', t)"
  shows "disp w' = disp w \<and> roster_ids w' = roster_ids w
         \<and> identifier_d (driver_at w' d) = identifier_d (driver_at w d)"
proof -
  from assms obtain x where x: "start_drive (driver_at w d) loc = Inr (x, t)"
    and w': "w' = set_driver w d x"
    by (auto simp: start_drive_at_def split: sum.splits)
  from x have "identifier_d x = identifier_d (driver_at w d)"
    by (auto simp: start_drive_def split: sum.splits)
  with w' show ?thesis by (simp add: roster_ids_set_driver) (simp add: set_driver_def)
qed

lemma RiderRequest_do_wellformed:
  assumes run: "RiderRequest_do t r w = Inr (w', res)"
    and wl: "distinct (waitlist (disp w))" and ids: "distinct (roster_ids w)"
    and fresh: "r \<notin> set (waitlist (disp w))"
  shows "distinct (waitlist (disp w')) \<and> distinct (roster_ids w')
         \<and> set (waitlist (disp w')) \<subseteq> set (waitlist (disp w)) \<union> {r}
         \<and> concat (map requesting (successors res)) = []"
proof -
  define w1 where "w1 = notify w (t, RIDER, REQUEST, id_r (rider_at w r), origin (rider_at w r))"
  from run obtain w2 x where rd: "request_driver w1 r = Inr (w2, x)"
    by (auto simp: RiderRequest_do_def w1_def split: sum.splits)
  from ids have "distinct (roster_ids w1)" by (simp add: w1_def)
  from request_driver_wellformed [OF rd] this have
    w2: "distinct (roster_ids w2)"
      "waitlist (disp w2) = waitlist (disp w) \<or> waitlist (disp w2) = waitlist (disp w) @ [r]"
    by (simp_all add: w1_def)
  from w2(2) wl fresh have wl2: "distinct (waitlist (disp w2))"
    "set (waitlist (disp w2)) \<subseteq> set (waitlist (disp w)) \<union> {r}"
    by auto
  show ?thesis
  proof (cases x)
    case None
    with run rd have "w' = w2" "successors res = [Cancellation (t + patience (rider_at w2 r)) r]"
      by (auto simp: RiderRequest_do_def w1_def [symmetric] successors_def)
    with w2 wl2 show ?thesis by simp
  next
    case (Some d)
    with run rd obtain w3 tt where sd: "start_drive_at w2 d (origin (rider_at w2 r)) = Inr (w3, tt)"
      and w': "w' = set_driver w3 d ((driver_at w3 d)\<lparr>location := origin (rider_at w3 r)\<rparr>)"
      and res: "successors res = [Pickup (t + tt) r d, Cancellation (t + patience (rider_at w' r)) r]"
      by (auto simp: RiderRequest_do_def w1_def [symmetric] successors_def Pickup_init_def
          split: sum.splits)
    from start_drive_at_disp [OF sd] have "disp w3 = disp w2" "roster_ids w3 = roster_ids w2"
      by simp_all
    with w' have "disp w' = disp w2" "roster_ids w' = roster_ids w2"
      by (simp_all add: roster_ids_set_driver)
    with w2 wl2 res show ?thesis by simp
  qed
qed

lemma request_rider_wellformed:
  assumes rr: "request_rider w d = (w', x)"
    and wl: "distinct (waitlist (disp w))" and ids: "distinct (roster_ids w)"
  shows "distinct (waitlist (disp w')) \<and> distinct (roster_ids w')
         \<and> set (waitlist (disp w')) \<subseteq> set (waitlist (disp w))"
proof (cases "waitlist (disp w)")
  case (Cons r rs)
  with rr have "w' = w\<lparr>disp := (disp w)\<lparr>waitlist := rs\<rparr>\<rparr>"
    by (simp add: request_rider_def)
  with Cons wl ids show ?thesis by (auto simp: roster_ids_def)
next
  case Nil
  show ?thesis
  proof (cases "list_ex (\<lambda>x. driver_eq (driver_at w x) (driver_at w d)) (drivers (disp w))")
    case True
    with Nil rr have "w' = w" by (simp add: request_rider_def)
    with wl ids show ?thesis by simp
  next
    case False
    with Nil rr have w': "w' = w\<lparr>disp := (disp w)\<lparr>drivers := drivers (disp w) @ [d]\<rparr>\<rparr>"
      by (simp add: request_rider_def)
    from False have "identifier_d (driver_at w d) \<notin> set (roster_ids w)"
      by (auto simp: list_ex_iff driver_eq_def roster_ids_def)
    with ids have "distinct (roster_ids w')" by (simp add: w' roster_ids_def)
    with wl Nil show ?thesis by (simp add: w')
  qed
qed

lemma DriverRequest_do_wellformed:
  assumes run: "DriverRequest_do t d w = Inr (w', res)"
    and wl: "distinct (waitlist (disp w))" and ids: "distinct (roster_ids w)"
  shows "distinct (waitlist (disp w')) \<and> distinct (roster_ids w')
         \<and> set (waitlist (disp w')) \<subseteq> set (waitlist (disp w))
         \<and> concat (map requesting (successors res)) = []"
proof -
  define w1 where "w1 = notify w (t, DRIVER, REQUEST, identifier_d (driver_at w d),
                         location (driver_at w d))"
  obtain w2 x where rr: "request_rider w1 d = (w2, x)" by (cases "request_rider w1 d")
  have w1: "distinct (waitlist (disp w1))" "distinct (roster_ids w1)"
    "waitlist (disp w1) = waitlist (disp w)"
    using wl ids by (simp_all add: w1_def)
  from request_rider_wellformed [OF rr w1(1,2)] w1(3)
  have w2: "distinct (waitlist (disp w2))" "distinct (roster_ids w2)"
    "set (waitlist (disp w2)) \<subseteq> set (waitlist (disp w))"
    by simp_all
  show ?thesis
  proof (cases x)
    case None
    with run rr have "w' = w2" "successors res = []"
      by (auto simp: DriverRequest_do_def w1_def [symmetric] successors_def)
    with w2 show ?thesis by simp
  next
    case (Some r)
    with run rr obtain w3 tt where sd: "start_drive_at w2 d (origin (rider_at w2 r)) = Inr (w3, tt)"
      and w': "w' = set_driver w3 d ((driver_at w3 d)\<lparr>location := origin (rider_at w3 r)\<rparr>)"
      and res: "successors res = [Pickup (t + \<bar>tt\<bar>) r d]"
      by (auto simp: DriverRequest_do_def w1_def [symmetric] successors_def Pickup_init_def
          split: sum.splits)
    from start_drive_at_disp [OF sd] have "disp w3 = disp w2" "roster_ids w3 = roster_ids w2"
      by simp_all
    with w' have "disp w' = disp w2" "roster_ids w' = roster_ids w2"
      by (simp_all add: roster_ids_set_driver)
    with w2 res show ?thesis by simp
  qed
qed


lemma distinct_count_list: "distinct xs \<Longrightarrow> count_list xs x \<le> 1"
  by (induction xs) (auto simp: count_list_0_iff)

lemma Cancellation_do_wellformed:
  assumes run: "Cancellation_do t r w = Inr (w', res)"
    and wl: "distinct (waitlist (disp w))" and ids: "distinct (roster_ids w)"
  shows "distinct (waitlist (disp w')) \<and> distinct (roster_ids w')
         \<and> set (waitlist (disp w')) \<subseteq> set (waitlist (disp w))
         \<and> concat (map requesting (successors res)) = []"
proof -
  from wl have "count_list (waitlist (disp w)) r \<le> 1"
    by (rule distinct_count_list)
  then have loop: "cancel_ride_loop 0 (waitlist (disp w)) r = remove1 r (waitlist (disp w))"
    by (simp add: cancel_ride_loop_once)
  have res: "successors res = []"
    using run by (auto simp: Cancellation_do_def Let_def successors_def split: if_splits)
  show ?thesis
  proof (cases "status (rider_at w r) = SATISFIED")
    case True
    with run have "w' = w" by (simp add: Cancellation_do_def)
    with wl ids res show ?thesis by simp
  next
    case False
    with run have "disp w' = (disp w)\<lparr>waitlist := remove1 r (waitlist (disp w))\<rparr>"
      and "driver_at w' = driver_at w"
      by (auto simp: Cancellation_do_def Let_def cancel_ride_def loop world_ops)
    with wl ids res show ?thesis
      by (auto simp: roster_ids_def dest: notin_set_remove1)
  qed
qed

lemma Pickup_do_wellformed:
  assumes run: "Pickup_do t r d w = Inr (w', res)"
  shows "disp w' = disp w \<and> roster_ids w' = roster_ids w
         \<and> concat (map requesting (successors res)) = []"
  using run unfolding Pickup_do_def Let_def Dropoff_init_def
  by (auto simp: successors_def roster_ids_set_driver split: if_splits sum.splits
      dest!: start_drive_at_disp)

lemma Dropoff_do_wellformed:
  assumes run: "Dropoff_do t r d w = Inr (w', res)"
  shows "disp w' = disp w \<and> roster_ids w' = roster_ids w
         \<and> concat (map requesting (successors res)) = []"
  using run unfolding Dropoff_do_def Let_def
  by (auto simp: successors_def roster_ids_set_driver)

lemma do_event_wellformed:
  assumes run: "do_event e w = Inr (w', res)"
    and wl: "distinct (waitlist (disp w))" and ids: "distinct (roster_ids w)"
    and fresh: "set (requesting e) \<inter> set (waitlist (disp w)) = {}"
  shows "distinct (waitlist (disp w')) \<and> distinct (roster_ids w')
         \<and> set (waitlist (disp w')) \<subseteq> set (waitlist (disp w)) \<union> set (requesting e)
         \<and> concat (map requesting (successors res)) = []"
proof (cases e)
  case (RiderRequest t r)
  with fresh have "r \<notin> set (waitlist (disp w))" by simp
  with run RiderRequest RiderRequest_do_wellformed [of t r w w' res] wl ids
  show ?thesis by simp
next
  case (DriverRequest t d)
  with run DriverRequest_do_wellformed [of t d w w' res] wl ids show ?thesis by auto
next
  case (Cancellation t r)
  with run Cancellation_do_wellformed [of t r w w' res] wl ids show ?thesis by auto
next
  case (Pickup t r d)
  with run Pickup_do_wellformed [of t r d w w' res] wl ids show ?thesis by simp
next
  case (Dropoff t r d)
  with run Dropoff_do_wellformed [of t r d w w' res] wl ids show ?thesis by simp
qed

text \<open>
  The invariants hold throughout every run: no step puts a rider on the waitlist twice
  or registers a second driver under an identifier of the roster.
\<close>

lemma run_wellformed:
  assumes "wellformed w q" and "run cs (w, q) = Inr (w', q')"
  shows "wellformed w' q'"
  using assms
proof (induction cs arbitrary: w q)
  case Nil
  then show ?case by simp
next
  case (Cons c cs)
  show ?case
  proof (cases c)
    case (Discard i)
    have "wellformed w (take i q @ drop (Suc i) q)"
    proof (cases "i < length q")
      case True
      define A where "A = concat (map requesting (take i q))"
      define E where "E = requesting (q ! i)"
      define B where "B = concat (map requesting (drop (Suc i) q))"
      from True have "q = take i q @ q ! i # drop (Suc i) q" by (rule id_take_nth_drop)
      then have "concat (map requesting q) =
          concat (map requesting (take i q @ q ! i # drop (Suc i) q))"
        by simp
      then have rq: "concat (map requesting q) = A @ E @ B"
        by (simp only: map_append concat_append list.map concat.simps A_def E_def B_def)
      have rq1: "concat (map requesting (take i q @ drop (Suc i) q)) = A @ B"
        by (simp only: map_append concat_append A_def B_def)
      from Cons.prems(1) have wf:
        "distinct (waitlist (disp w))" "distinct (roster_ids w)"
        "distinct (A @ E @ B)" "set (A @ E @ B) \<inter> set (waitlist (disp w)) = {}"
        by (simp_all only: wellformed_def rq)
      from wf(3) have d1: "distinct (A @ B)" by auto
      from wf(4) have d2: "set (A @ B) \<inter> set (waitlist (disp w)) = {}" by auto
      show ?thesis unfolding wellformed_def rq1 using wf(1,2) d1 d2 by (intro conjI)
    next
      case False
      with Cons.prems(1) show ?thesis by simp
    qed
    from Cons.IH [OF this] Cons.prems(2) Discard show ?thesis by simp
  next
    case (Execute i)
    show ?thesis
    proof (cases "i < length q")
      case False
      with Cons.IH [OF Cons.prems(1)] Cons.prems(2) Execute show ?thesis by simp
    next
      case True
      with Cons.prems(2) Execute obtain w1 res where
        ev: "do_event (q ! i) w = Inr (w1, res)"
        and rest: "run cs (w1, take i q @ drop (Suc i) q @ successors res) = Inr (w', q')"
        by (auto split: sum.splits)
      define A where "A = concat (map requesting (take i q))"
      define E where "E = requesting (q ! i)"
      define B where "B = concat (map requesting (drop (Suc i) q))"
      from True have "q = take i q @ q ! i # drop (Suc i) q" by (rule id_take_nth_drop)
      then have "concat (map requesting q) =
          concat (map requesting (take i q @ q ! i # drop (Suc i) q))"
        by simp
      then have rq: "concat (map requesting q) = A @ E @ B"
        by (simp only: map_append concat_append list.map concat.simps A_def E_def B_def)
      from Cons.prems(1) have wf:
        "distinct (waitlist (disp w))" "distinct (roster_ids w)"
        "distinct (A @ E @ B)" "set (A @ E @ B) \<inter> set (waitlist (disp w)) = {}"
        by (simp_all only: wellformed_def rq)
      from wf(4) have "set E \<inter> set (waitlist (disp w)) = {}" by auto
      from do_event_wellformed [OF ev wf(1,2) this [unfolded E_def]] have step:
        "distinct (waitlist (disp w1))" "distinct (roster_ids w1)"
        "set (waitlist (disp w1)) \<subseteq> set (waitlist (disp w)) \<union> set E"
        "concat (map requesting (successors res)) = []"
        by (simp_all only: E_def)
      have rq1: "concat (map requesting (take i q @ drop (Suc i) q @ successors res)) = A @ B"
        by (simp only: map_append concat_append step(4) append_Nil2 A_def B_def)
      from wf(3) have d1: "distinct (A @ B)" by auto
      from wf(3) have "set (A @ B) \<inter> set E = {}" by auto
      with wf(4) step(3) have d2: "set (A @ B) \<inter> set (waitlist (disp w1)) = {}" by auto
      have "wellformed w1 (take i q @ drop (Suc i) q @ successors res)"
        unfolding wellformed_def rq1 using step(1,2) d1 d2 by (intro conjI)
      from Cons.IH [OF this rest] show ?thesis .
    qed
  qed
qed

text \<open>
  In particular they hold in every run that starts with an empty dispatcher and at most
  one request per rider, as a run from an input file does.
\<close>

lemma run_from_input:
  assumes "disp w0 = Dispatcher" and "distinct (concat (map requesting q0))"
    and "run cs (w0, q0) = Inr (w, q)"
  shows "distinct (roster_ids w) \<and> count_list (waitlist (disp w)) r \<le> 1"
proof -
  from assms(1,2) have "wellformed w0 q0"
    by (simp add: wellformed_def Dispatcher_def roster_ids_def)
  from run_wellformed [OF this assms(3)] have "distinct (waitlist (disp w))"
    and "distinct (roster_ids w)"
    by (simp_all add: wellformed_def)
  with distinct_count_list [of "waitlist (disp w)" r] show ?thesis by simp
qed

end
